theory Spec2Isabelle
  imports Complex_Main "HOL-Library.Sublist" "HOL-Library.Multiset"
    "HOL-Library.Product_Lexorder" "HOL-Library.Log_Nat"
begin

section \<open>JavaScript values\<close>

text \<open>
  The server variants of the OS dashboard are plain JavaScript over the results of the
  sensor library. The values that flow through the handlers are primitives:
  \<open>undefined\<close>, \<open>null\<close>, booleans, numbers and strings. A number is \<open>NaN\<close>, an
  infinity, or a finite value; a finite double is a rational number and is kept as one.
  The sign of zero is not distinguished. The rounding of a result to a double is
  modelled where a handler's answer depends on it, in the normalization of the process
  list; the other operations are exact.
\<close>

datatype jsnum = NaN | PosInf | NegInf | Fin rat

text \<open>
  \<open>JFixed n\<close> is the string that \<open>n.toFixed(2)\<close> yields: the decimal notation of the
  multiple of 0.01 nearest to \<open>n\<close>. It is kept apart from \<open>JStr\<close> because its reading as
  a number is known without parsing.
\<close>

datatype jsval =
    Undefined
  | Null
  | JBool bool
  | JNum jsnum
  | JStr string
  | JFixed jsnum

text \<open>\<open>a ?? b\<close>\<close>

definition nullish :: "jsval \<Rightarrow> jsval \<Rightarrow> jsval" where
  "nullish a b = (if a = Undefined \<or> a = Null then b else a)"

text \<open>Truthiness, as \<open>if (v)\<close>, \<open>v || w\<close> and \<open>v ? a : b\<close> read a value.\<close>

fun truthy :: "jsval \<Rightarrow> bool" where
  "truthy Undefined = False"
| "truthy Null = False"
| "truthy (JBool b) = b"
| "truthy (JNum NaN) = False"
| "truthy (JNum (Fin q)) = (q \<noteq> 0)"
| "truthy (JNum _) = True"
| "truthy (JStr s) = (s \<noteq> [])"
| "truthy (JFixed _) = True"

text \<open>\<open>a || b\<close>\<close>

definition or_else :: "jsval \<Rightarrow> jsval \<Rightarrow> jsval" where
  "or_else a b = (if truthy a then a else b)"

text \<open>\<open>typeof v === 'number'\<close>\<close>

fun is_number :: "jsval \<Rightarrow> bool" where
  "is_number (JNum _) = True"
| "is_number _ = False"

text \<open>
  \<open>toFixed(2)\<close> takes the magnitude, picks the integer \<open>n\<close> with \<open>n / 100\<close> nearest to it
  (the larger one on a tie) and prints it with the sign of the number; read back as a
  number that is \<open>round2\<close>.
\<close>

definition round2 :: "rat \<Rightarrow> rat" where
  "round2 q = (if q < 0 then - (of_int \<lfloor>- q * 100 + 1 / 2\<rfloor> / 100)
               else of_int \<lfloor>q * 100 + 1 / 2\<rfloor> / 100)"

fun fixed_value :: "jsnum \<Rightarrow> jsnum" where
  "fixed_value (Fin q) = Fin (round2 q)"
| "fixed_value n = n"

text \<open>
  \<open>Number(v)\<close>. The reading of an arbitrary string as a number (the language's
  StringToNumber) is the parameter \<open>S\<close> of every function that converts.
\<close>

fun to_number :: "(string \<Rightarrow> jsnum) \<Rightarrow> jsval \<Rightarrow> jsnum" where
  "to_number S Undefined = NaN"
| "to_number S Null = Fin 0"
| "to_number S (JBool b) = Fin (if b then 1 else 0)"
| "to_number S (JNum n) = n"
| "to_number S (JStr s) = S s"
| "to_number S (JFixed n) = fixed_value n"

text \<open>
  A reading of strings for the examples: the empty string is 0, a string of decimal
  digits is its value, and a string with any other character is \<open>NaN\<close>. It agrees with
  StringToNumber on the strings the examples use.
\<close>

definition is_digit :: "char \<Rightarrow> bool" where
  "is_digit c = (48 \<le> (of_char c :: nat) \<and> (of_char c :: nat) \<le> 57)"

definition digit_val :: "char \<Rightarrow> nat" where
  "digit_val c = of_char c - 48"

definition digits_value :: "string \<Rightarrow> nat" where
  "digits_value s = foldl (\<lambda>acc c. acc * 10 + digit_val c) 0 s"

definition plain_reading :: "string \<Rightarrow> jsnum" where
  "plain_reading s = (if list_all is_digit s then Fin (of_nat (digits_value s)) else NaN)"

section \<open>Thresholds\<close>

text \<open>\<^verbatim>\<open>let thresholds = { cpu: 90, ram: 85, battery: 15 };\<close>\<close>

record thresholds =
  th_cpu :: jsval
  th_ram :: jsval
  th_battery :: jsval

definition initial_thresholds :: thresholds where
  "initial_thresholds =
     \<lparr>th_cpu = JNum (Fin 90), th_ram = JNum (Fin 85), th_battery = JNum (Fin 15)\<rparr>"

text \<open>The fields of a request body that the handler reads; a field that is not sent is
  \<open>Undefined\<close>.\<close>

record threshold_body =
  b_cpu :: jsval
  b_ram :: jsval
  b_battery :: jsval

definition empty_body :: threshold_body where
  "empty_body = \<lparr>b_cpu = Undefined, b_ram = Undefined, b_battery = Undefined\<rparr>"

record threshold_response =
  success :: bool
  res_thresholds :: thresholds

text \<open>
  \<^verbatim>\<open>app.post('/api/thresholds', ...)\<close>: \<open>req.body || {}\<close>, three guarded assignments, then
  the reply with the whole object. Nothing in the \<open>try\<close> block can raise, so the handler
  is a total function from the state and the body to the new state and the reply.
\<close>

definition post_thresholds ::
  "thresholds \<Rightarrow> threshold_body option \<Rightarrow> thresholds \<times> threshold_response" where
  "post_thresholds th body =
     (let b = (case body of None \<Rightarrow> empty_body | Some b \<Rightarrow> b);
          th1 = (if is_number (b_cpu b) then th\<lparr>th_cpu := b_cpu b\<rparr> else th);
          th2 = (if is_number (b_ram b) then th1\<lparr>th_ram := b_ram b\<rparr> else th1);
          th3 = (if is_number (b_battery b) then th2\<lparr>th_battery := b_battery b\<rparr> else th2)
      in (th3, \<lparr>success = True, res_thresholds = th3\<rparr>))"

text \<open>\<^verbatim>\<open>app.get('/api/thresholds', ...)\<close>\<close>

definition get_thresholds :: "thresholds \<Rightarrow> thresholds" where
  "get_thresholds th = th"

section \<open>Number arithmetic\<close>

text \<open>The operators \<open>/\<close>, \<open>*\<close> and \<open>-\<close> on numbers, with the IEEE cases for \<open>NaN\<close> and the
  infinities. Their operands are converted with \<open>Number\<close> first.\<close>

fun num_div :: "jsnum \<Rightarrow> jsnum \<Rightarrow> jsnum" where
  "num_div NaN _ = NaN"
| "num_div _ NaN = NaN"
| "num_div (Fin a) (Fin b) =
     (if b = 0 then (if a = 0 then NaN else if 0 < a then PosInf else NegInf) else Fin (a / b))"
| "num_div (Fin a) PosInf = Fin 0"
| "num_div (Fin a) NegInf = Fin 0"
| "num_div PosInf (Fin b) = (if b < 0 then NegInf else PosInf)"
| "num_div NegInf (Fin b) = (if b < 0 then PosInf else NegInf)"
| "num_div PosInf _ = NaN"
| "num_div NegInf _ = NaN"

fun num_mul :: "jsnum \<Rightarrow> jsnum \<Rightarrow> jsnum" where
  "num_mul NaN _ = NaN"
| "num_mul _ NaN = NaN"
| "num_mul (Fin a) (Fin b) = Fin (a * b)"
| "num_mul (Fin a) PosInf = (if a = 0 then NaN else if 0 < a then PosInf else NegInf)"
| "num_mul (Fin a) NegInf = (if a = 0 then NaN else if 0 < a then NegInf else PosInf)"
| "num_mul PosInf (Fin b) = (if b = 0 then NaN else if 0 < b then PosInf else NegInf)"
| "num_mul NegInf (Fin b) = (if b = 0 then NaN else if 0 < b then NegInf else PosInf)"
| "num_mul PosInf PosInf = PosInf"
| "num_mul PosInf NegInf = NegInf"
| "num_mul NegInf PosInf = NegInf"
| "num_mul NegInf NegInf = PosInf"

fun num_sub :: "jsnum \<Rightarrow> jsnum \<Rightarrow> jsnum" where
  "num_sub NaN _ = NaN"
| "num_sub _ NaN = NaN"
| "num_sub (Fin a) (Fin b) = Fin (a - b)"
| "num_sub (Fin a) PosInf = NegInf"
| "num_sub (Fin a) NegInf = PosInf"
| "num_sub PosInf (Fin b) = PosInf"
| "num_sub NegInf (Fin b) = NegInf"
| "num_sub PosInf PosInf = NaN"
| "num_sub PosInf NegInf = PosInf"
| "num_sub NegInf PosInf = NegInf"
| "num_sub NegInf NegInf = NaN"

definition js_div :: "(string \<Rightarrow> jsnum) \<Rightarrow> jsval \<Rightarrow> jsval \<Rightarrow> jsnum" where
  "js_div S a b = num_div (to_number S a) (to_number S b)"

definition js_sub :: "(string \<Rightarrow> jsnum) \<Rightarrow> jsval \<Rightarrow> jsval \<Rightarrow> jsnum" where
  "js_sub S a b = num_sub (to_number S a) (to_number S b)"

text \<open>\<open>v > 0\<close>: false when \<open>Number(v)\<close> is \<open>NaN\<close>.\<close>

definition gt_zero :: "(string \<Rightarrow> jsnum) \<Rightarrow> jsval \<Rightarrow> bool" where
  "gt_zero S v = (case to_number S v of Fin q \<Rightarrow> 0 < q | PosInf \<Rightarrow> True | _ \<Rightarrow> False)"

text \<open>\<open>Number.isFinite\<close>\<close>

fun is_finite :: "jsnum \<Rightarrow> bool" where
  "is_finite (Fin _) = True"
| "is_finite _ = False"

text \<open>\<open>Math.round\<close>: the nearest integer, a tie going up.\<close>

fun math_round :: "jsnum \<Rightarrow> jsnum" where
  "math_round (Fin q) = Fin (of_int \<lfloor>q + 1 / 2\<rfloor>)"
| "math_round n = n"

text \<open>\<open>Math.floor\<close>\<close>

fun math_floor :: "jsnum \<Rightarrow> jsnum" where
  "math_floor (Fin q) = Fin (of_int \<lfloor>q\<rfloor>)"
| "math_floor n = n"

text \<open>\<open>v?.toFixed?.(2)\<close>: only a number has the method; for every other value the chain
  yields \<open>undefined\<close>.\<close>

fun opt_toFixed2 :: "jsval \<Rightarrow> jsval" where
  "opt_toFixed2 (JNum n) = JFixed n"
| "opt_toFixed2 _ = Undefined"

section \<open>Sensor readings\<close>

text \<open>
  The objects the sensor library resolves to, with the fields the handlers read. A field
  the library leaves out is \<open>Undefined\<close>. Where a handler guards the object itself
  (\<open>mem?.active\<close>, \<open>battery &&\<close>), the object is an option and \<open>None\<close> stands for
  \<open>null\<close> or \<open>undefined\<close>. A query that rejects is \<open>Rejected\<close> with its message.
\<close>

datatype 'a settled = Rejected string | Fulfilled 'a

datatype error = SensorError string | TypeError string | IOError string

record cpuload =
  currentLoad :: jsval

record memory =
  m_used :: jsval
  m_active :: jsval
  m_total :: jsval

record battery =
  hasbattery :: jsval
  percent :: jsval
  maxcapacity :: jsval
  ischarging :: jsval

record powersupply =
  ps_percent :: jsval

record fs_entry =
  d_fs :: jsval
  d_mount :: jsval
  d_size :: jsval
  d_used :: jsval
  d_use :: jsval

record controller =
  g_model :: jsval
  g_vendor :: jsval
  g_vram :: jsval
  g_utilizationGpu :: jsval

record process =
  p_pid :: jsval
  p_name :: jsval
  p_command :: jsval
  p_pcpu :: jsval
  p_cpu :: jsval
  p_cpuPercent :: jsval
  p_cpuUsage :: jsval
  p_pmem :: jsval
  p_mem :: jsval
  p_memPercent :: jsval

text \<open>\<open>x?.f\<close> on an object that may be nullish.\<close>

definition opt_field :: "('a \<Rightarrow> jsval) \<Rightarrow> 'a option \<Rightarrow> jsval" where
  "opt_field f x = (case x of None \<Rightarrow> Undefined | Some r \<Rightarrow> f r)"

text \<open>\<open>xs || []\<close> and \<open>obj?.list || []\<close>: an array is truthy even when empty.\<close>

definition list_or_empty :: "'a list option \<Rightarrow> 'a list" where
  "list_or_empty xs = (case xs of None \<Rightarrow> [] | Some l \<Rightarrow> l)"

text \<open>\<open>await Promise.all([...])\<close> inside \<open>try\<close>: a rejected query ends the handler in its
  \<open>catch\<close>. Of several rejections the model reports the first in array order.\<close>

fun settle :: "'a settled \<Rightarrow> error + 'a" where
  "settle (Rejected m) = Inl (SensorError m)"
| "settle (Fulfilled v) = Inr v"

definition and_then :: "error + 'a \<Rightarrow> ('a \<Rightarrow> error + 'b) \<Rightarrow> error + 'b" where
  "and_then m f = (case m of Inl e \<Rightarrow> Inl e | Inr v \<Rightarrow> f v)"

section \<open>server.cjs: getBatteryInfo, getSystemInfo, the logger\<close>

record battery_info =
  bi_percent :: jsval
  bi_isCharging :: jsval

definition no_battery_info :: battery_info where
  "no_battery_info = \<lparr>bi_percent = JStr ''N/A'', bi_isCharging = JBool False\<rparr>"

text \<open>\<^verbatim>\<open>async function getBatteryInfo()\<close> of server.cjs: the \<open>catch\<close> and the \<open>else\<close> return
  the same object.\<close>

definition getBatteryInfo :: "battery option settled \<Rightarrow> battery_info" where
  "getBatteryInfo bat =
     (case bat of
        Rejected m \<Rightarrow> no_battery_info
      | Fulfilled None \<Rightarrow> no_battery_info
      | Fulfilled (Some b) \<Rightarrow>
          (if truthy (hasbattery b)
           then \<lparr>bi_percent = nullish (percent b) (JStr ''N/A''),
                 bi_isCharging = nullish (ischarging b) (JBool False)\<rparr>
           else no_battery_info))"

record sysinfo =
  i_cpu :: jsval
  i_memory :: jsval
  i_battery :: jsval
  i_charging :: jsval

definition na_sysinfo :: sysinfo where
  "na_sysinfo = \<lparr>i_cpu = JStr ''N/A'', i_memory = JStr ''N/A'', i_battery = JStr ''N/A'',
                  i_charging = Undefined\<rparr>"

text \<open>
  \<^verbatim>\<open>async function getSystemInfo()\<close>: \<open>cpu.currentLoad.toFixed(2)\<close> raises unless
  \<open>currentLoad\<close> is a number, \<open>mem.used\<close> raises on a nullish \<open>mem\<close>; every failure is
  caught and answered with the three markers.
\<close>

definition getSystemInfo ::
  "(string \<Rightarrow> jsnum) \<Rightarrow> cpuload option settled \<Rightarrow> memory option settled \<Rightarrow> battery option settled
    \<Rightarrow> sysinfo" where
  "getSystemInfo S cpu mem bat =
     (case (cpu, mem) of
        (Fulfilled (Some c), Fulfilled (Some m)) \<Rightarrow>
          (case currentLoad c of
             JNum n \<Rightarrow>
               (let battery = getBatteryInfo bat;
                    cpuLoad = JFixed n;
                    memUsage = JFixed (num_mul (js_div S (m_used m) (m_total m)) (Fin 100))
                in \<lparr>i_cpu = cpuLoad, i_memory = memUsage, i_battery = bi_percent battery,
                     i_charging = bi_isCharging battery\<rparr>)
           | _ \<Rightarrow> na_sysinfo)
      | _ \<Rightarrow> na_sysinfo)"

text \<open>\<^verbatim>\<open>app.get('/api/resource', ...)\<close> and the five-minute job both await
  \<open>getSystemInfo()\<close>; the job spreads the result behind a timestamp.\<close>

definition api_resource ::
  "(string \<Rightarrow> jsnum) \<Rightarrow> cpuload option settled \<Rightarrow> memory option settled \<Rightarrow> battery option settled
    \<Rightarrow> sysinfo" where
  "api_resource S cpu mem bat = getSystemInfo S cpu mem bat"

definition cron_logEntry ::
  "(string \<Rightarrow> jsnum) \<Rightarrow> string \<Rightarrow> cpuload option settled \<Rightarrow> memory option settled
    \<Rightarrow> battery option settled \<Rightarrow> string \<times> sysinfo" where
  "cron_logEntry S timestamp cpu mem bat = (timestamp, getSystemInfo S cpu mem bat)"

section \<open>The robust server variant: /api/stats and the every-minute logger\<close>

record stats =
  s_cpu :: jsnum
  s_ram :: jsnum
  s_battery :: jsval
  s_ssd :: "fs_entry list"
  s_gpu :: "controller list"

definition gpu_entry :: "controller \<Rightarrow> controller" where
  "gpu_entry g = \<lparr>g_model = or_else (g_model g) (JStr ''unknown''),
                   g_vendor = or_else (g_vendor g) (JStr []),
                   g_vram = or_else (g_vram g) (JNum (Fin 0)),
                   g_utilizationGpu = nullish (g_utilizationGpu g) Null\<rparr>"

definition ssd_entry :: "fs_entry \<Rightarrow> fs_entry" where
  "ssd_entry d = \<lparr>d_fs = d_fs d, d_mount = d_mount d, d_size = d_size d, d_used = d_used d,
                   d_use = d_use d\<rparr>"

text \<open>
  \<^verbatim>\<open>app.get('/api/stats', ...)\<close> (script.js 528-558). \<open>cpuLoad.currentLoad\<close> raises on a
  nullish \<open>cpuLoad\<close>; the reply is then the 500 of the \<open>catch\<close>.
\<close>

definition api_stats ::
  "(string \<Rightarrow> jsnum) \<Rightarrow> cpuload option settled \<Rightarrow> memory option settled \<Rightarrow> battery option settled
    \<Rightarrow> fs_entry list option settled \<Rightarrow> controller list option settled \<Rightarrow> error + stats" where
  "api_stats S cpuLoad_q mem_q battery_q fsSize_q graphics_q =
     and_then (settle cpuLoad_q) (\<lambda>cpuLoad.
     and_then (settle mem_q) (\<lambda>mem.
     and_then (settle battery_q) (\<lambda>battery.
     and_then (settle fsSize_q) (\<lambda>fsSize.
     and_then (settle graphics_q) (\<lambda>graphics.
       (case cpuLoad of
          None \<Rightarrow> Inl (TypeError ''Cannot read properties of undefined (reading currentLoad)'')
        | Some cl \<Rightarrow>
            (let cpu = to_number S (nullish (opt_toFixed2 (currentLoad cl))
                                     (nullish (currentLoad cl) (JNum (Fin 0))));
                 ram = to_number S (JFixed (num_mul
                         (js_div S (nullish (opt_field m_active mem) (JNum (Fin 0)))
                                   (nullish (opt_field m_total mem) (JNum (Fin 1))))
                         (Fin 100)));
                 batteryPct = (if truthy (opt_field hasbattery battery)
                               then nullish (opt_field percent battery) Null else Null);
                 ssd = map ssd_entry (list_or_empty fsSize);
                 gpu = map gpu_entry (list_or_empty graphics)
             in Inr \<lparr>s_cpu = cpu, s_ram = ram, s_battery = batteryPct, s_ssd = ssd,
                      s_gpu = gpu\<rparr>)))))))"

text \<open>
  The every-minute job (script.js 669-680) computes three values, formats one line and
  hands it to \<open>appendLogAsync\<close>. \<open>T\<close> is the conversion of a value to text inside a
  template literal; \<open>now\<close> is \<open>new Date().toLocaleString()\<close>. A failure is caught and
  only reported on the console, so nothing is appended.
\<close>

record cron_values =
  cpuVal :: jsnum
  ramVal :: jsnum
  battVal :: jsval

definition cron_poll ::
  "(string \<Rightarrow> jsnum) \<Rightarrow> cpuload option settled \<Rightarrow> memory option settled \<Rightarrow> battery option settled
    \<Rightarrow> error + cron_values" where
  "cron_poll S cpu_q mem_q battery_q =
     and_then (settle cpu_q) (\<lambda>cpu.
     and_then (settle mem_q) (\<lambda>mem.
     and_then (settle battery_q) (\<lambda>battery.
       (case cpu of
          None \<Rightarrow> Inl (TypeError ''Cannot read properties of undefined (reading currentLoad)'')
        | Some c \<Rightarrow>
            Inr \<lparr>cpuVal = to_number S (nullish (opt_toFixed2 (currentLoad c))
                                        (nullish (currentLoad c) (JNum (Fin 0)))),
                 ramVal = to_number S (JFixed (num_mul
                            (js_div S (nullish (opt_field m_active mem) (JNum (Fin 0)))
                                      (nullish (opt_field m_total mem) (JNum (Fin 1))))
                            (Fin 100))),
                 battVal = (if truthy (opt_field hasbattery battery)
                            then nullish (opt_field percent battery) (JStr ''N/A'')
                            else JStr ''N/A'')\<rparr>))))"

definition cron_line :: "(jsval \<Rightarrow> string) \<Rightarrow> string \<Rightarrow> cron_values \<Rightarrow> string" where
  "cron_line T now v =
     ''['' @ now @ ''] CPU:'' @ T (JNum (cpuVal v)) @ ''% RAM:'' @ T (JNum (ramVal v))
       @ ''% Battery:'' @ T (battVal v)"

text \<open>The log file as the text appended so far; \<open>None\<close> before the first append.\<close>

definition appendLogAsync :: "string option \<Rightarrow> string \<Rightarrow> string option" where
  "appendLogAsync file line =
     Some ((case file of None \<Rightarrow> [] | Some c \<Rightarrow> c) @ line @ [CHR 0x0A])"

definition cron_tick ::
  "(string \<Rightarrow> jsnum) \<Rightarrow> (jsval \<Rightarrow> string) \<Rightarrow> string \<Rightarrow> cpuload option settled
    \<Rightarrow> memory option settled \<Rightarrow> battery option settled \<Rightarrow> string option \<Rightarrow> string option" where
  "cron_tick S T now cpu_q mem_q battery_q file =
     (case cron_poll S cpu_q mem_q battery_q of
        Inl e \<Rightarrow> file
      | Inr v \<Rightarrow> appendLogAsync file (cron_line T now v))"

section \<open>Addition\<close>

fun num_add :: "jsnum \<Rightarrow> jsnum \<Rightarrow> jsnum" where
  "num_add NaN _ = NaN"
| "num_add _ NaN = NaN"
| "num_add (Fin a) (Fin b) = Fin (a + b)"
| "num_add (Fin a) PosInf = PosInf"
| "num_add (Fin a) NegInf = NegInf"
| "num_add PosInf (Fin b) = PosInf"
| "num_add NegInf (Fin b) = NegInf"
| "num_add PosInf PosInf = PosInf"
| "num_add PosInf NegInf = NaN"
| "num_add NegInf PosInf = NaN"
| "num_add NegInf NegInf = NegInf"

section \<open>Array.prototype.sort and slice\<close>

text \<open>
  \<open>xs.sort(c)\<close>. The language fixes the result for a consistent comparator: the elements
  in the order the comparator gives, equal ones in their original order (the sort is
  stable). The model is the insertion sort with that result: from the right, each element
  goes in front of the first one it does not have to follow. A comparator result that
  is \<open>NaN\<close> counts as 0.
\<close>

definition not_after :: "('a \<Rightarrow> 'a \<Rightarrow> jsnum) \<Rightarrow> 'a \<Rightarrow> 'a \<Rightarrow> bool" where
  "not_after c x y = (case c x y of Fin q \<Rightarrow> q \<le> 0 | NaN \<Rightarrow> True | NegInf \<Rightarrow> True | PosInf \<Rightarrow> False)"

fun sort_insert :: "('a \<Rightarrow> 'a \<Rightarrow> jsnum) \<Rightarrow> 'a \<Rightarrow> 'a list \<Rightarrow> 'a list" where
  "sort_insert c x [] = [x]"
| "sort_insert c x (y # ys) = (if not_after c x y then x # y # ys else y # sort_insert c x ys)"

definition js_sort :: "('a \<Rightarrow> 'a \<Rightarrow> jsnum) \<Rightarrow> 'a list \<Rightarrow> 'a list" where
  "js_sort c xs = foldr (sort_insert c) xs []"

text \<open>\<open>xs.slice(start)\<close> for an integer \<open>start\<close>: a negative start counts from the end.\<close>

definition slice_from :: "int \<Rightarrow> 'a list \<Rightarrow> 'a list" where
  "slice_from start xs =
     (let len = int (length xs);
          k = (if start < 0 then max (len + start) 0 else min start len)
      in drop (nat k) xs)"

section \<open>Arithmetic rounded to doubles\<close>

text \<open>
  The result of an operation on doubles is the exact result rounded to the nearest
  double, a tie going to the double with an even last bit, and to an infinity beyond
  the range of the doubles. The normalization of the process list depends on this
  rounding (a product that overflows, a product that lands on a tie), so its
  operations round.
\<close>

text \<open>The exponent of a positive rational: the \<open>e\<close> with \<open>2 ^ e \<le> q < 2 ^ (e + 1)\<close>.\<close>

definition exponent :: "rat \<Rightarrow> int" where
  "exponent q =
     (let k = bitlen (fst (quotient_of q)) - bitlen (snd (quotient_of q))
      in if 2 powi k \<le> q then k else k - 1)"

text \<open>The nearest integer, a tie going to the even one.\<close>

definition round_even :: "rat \<Rightarrow> int" where
  "round_even x =
     (let f = \<lfloor>x\<rfloor>; d = x - of_int f
      in if d < 1 / 2 then f else if 1 / 2 < d then f + 1 else if even f then f else f + 1)"

text \<open>The double nearest to a positive rational, as a rational: 53 bits from the
  exponent down, the exponent not below -1022 (below it the doubles are evenly spaced,
  2 ^ -1074 apart).\<close>

definition nearest :: "rat \<Rightarrow> rat" where
  "nearest q =
     (let u = 2 powi (max (exponent q) (- 1022) - 52)
      in of_int (round_even (q / u)) * u)"

definition double :: "rat \<Rightarrow> jsnum" where
  "double q =
     (if q = 0 then Fin 0
      else if 0 < q then (if 2 powi 1024 \<le> nearest q then PosInf else Fin (nearest q))
      else (if 2 powi 1024 \<le> nearest (- q) then NegInf else Fin (- nearest (- q))))"

text \<open>\<open>*\<close>, \<open>/\<close> and \<open>-\<close> on doubles.\<close>

fun mul_d :: "jsnum \<Rightarrow> jsnum \<Rightarrow> jsnum" where
  "mul_d (Fin a) (Fin b) = double (a * b)"
| "mul_d a b = num_mul a b"

fun div_d :: "jsnum \<Rightarrow> jsnum \<Rightarrow> jsnum" where
  "div_d (Fin a) (Fin b) = (if b = 0 then num_div (Fin a) (Fin b) else double (a / b))"
| "div_d a b = num_div a b"

fun sub_d :: "jsnum \<Rightarrow> jsnum \<Rightarrow> jsnum" where
  "sub_d (Fin a) (Fin b) = double (a - b)"
| "sub_d a b = num_sub a b"

text \<open>The order of the numbers; \<open>NaN\<close> is not comparable.\<close>

fun num_le :: "jsnum \<Rightarrow> jsnum \<Rightarrow> bool" where
  "num_le NaN _ = False"
| "num_le _ NaN = False"
| "num_le NegInf _ = True"
| "num_le _ PosInf = True"
| "num_le (Fin a) (Fin b) = (a \<le> b)"
| "num_le _ _ = False"

section \<open>/api/processes, robust variant\<close>

record top_process =
  t_pid :: jsval
  t_name :: jsval
  t_cpu :: jsnum
  t_mem :: jsnum

text \<open>\<^verbatim>\<open>const safeNum = v => { ... }\<close>\<close>

definition safeNum :: "(string \<Rightarrow> jsnum) \<Rightarrow> jsval \<Rightarrow> jsnum" where
  "safeNum S v =
     (if v = Undefined \<or> v = Null then Fin 0
      else (let n = to_number S v in if is_finite n then n else Fin 0))"

text \<open>The callback of \<open>list.map\<close> (script.js 572-583).\<close>

definition cpuRaw :: "process \<Rightarrow> jsval" where
  "cpuRaw p = nullish (p_pcpu p) (nullish (p_cpu p) (nullish (p_cpuPercent p)
                (nullish (p_cpuUsage p) (JNum (Fin 0)))))"

definition memRaw :: "process \<Rightarrow> jsval" where
  "memRaw p = nullish (p_pmem p) (nullish (p_mem p) (nullish (p_memPercent p) (JNum (Fin 0))))"

definition mapped :: "(string \<Rightarrow> jsnum) \<Rightarrow> process \<Rightarrow> top_process" where
  "mapped S p =
     (let cpu = to_number S (JNum (safeNum S (cpuRaw p)));
          memv = to_number S (JNum (safeNum S (memRaw p)))
      in \<lparr>t_pid = nullish (p_pid p) Null,
           t_name = nullish (p_name p) (nullish (p_command p) (JStr ''unknown'')),
           t_cpu = div_d (math_round (mul_d cpu (Fin 100))) (Fin 100),
           t_mem = div_d (math_round (mul_d memv (Fin 100))) (Fin 100)\<rparr>)"

text \<open>\<^verbatim>\<open>(a,b) => (b.cpu ?? 0) - (a.cpu ?? 0)\<close>\<close>

definition by_cpu_desc :: "(string \<Rightarrow> jsnum) \<Rightarrow> top_process \<Rightarrow> top_process \<Rightarrow> jsnum" where
  "by_cpu_desc S a b =
     sub_d (to_number S (nullish (JNum (t_cpu b)) (JNum (Fin 0))))
           (to_number S (nullish (JNum (t_cpu a)) (JNum (Fin 0))))"

text \<open>The whole list in ranked order, before the cut to five.\<close>

definition ranked :: "(string \<Rightarrow> jsnum) \<Rightarrow> process list option \<Rightarrow> top_process list" where
  "ranked S procInfo = js_sort (by_cpu_desc S) (map (mapped S) (list_or_empty procInfo))"

definition api_processes ::
  "(string \<Rightarrow> jsnum) \<Rightarrow> process list option settled \<Rightarrow> error + top_process list" where
  "api_processes S procs_q =
     and_then (settle procs_q) (\<lambda>procInfo. Inr (take 5 (ranked S procInfo)))"

section \<open>/api/processes, the variant that keeps toFixed strings\<close>

text \<open>
  \<^verbatim>\<open>app.get('/api/processes', ...)\<close> (script.js 386-404): cpu and mem are the strings
  of \<open>Number(...).toFixed(2)\<close>, and the comparator subtracts the strings.
\<close>

record fixed_process =
  f_pid :: jsval
  f_name :: jsval
  f_cpu :: jsval
  f_mem :: jsval

definition mapped_fixed :: "(string \<Rightarrow> jsnum) \<Rightarrow> process \<Rightarrow> fixed_process" where
  "mapped_fixed S p =
     \<lparr>f_pid = nullish (p_pid p) Null,
      f_name = nullish (p_name p) (nullish (p_command p) (JStr ''unknown'')),
      f_cpu = JFixed (to_number S (nullish (p_pcpu p) (nullish (p_cpu p) (JNum (Fin 0))))),
      f_mem = JFixed (to_number S (nullish (p_pmem p) (nullish (p_mem p) (JNum (Fin 0)))))\<rparr>"

text \<open>\<^verbatim>\<open>(a, b) => b.cpu - a.cpu\<close>\<close>

definition by_fixed_cpu_desc ::
  "(string \<Rightarrow> jsnum) \<Rightarrow> fixed_process \<Rightarrow> fixed_process \<Rightarrow> jsnum" where
  "by_fixed_cpu_desc S a b = js_sub S (f_cpu b) (f_cpu a)"

definition ranked_fixed :: "(string \<Rightarrow> jsnum) \<Rightarrow> process list option \<Rightarrow> fixed_process list" where
  "ranked_fixed S procInfo =
     js_sort (by_fixed_cpu_desc S) (map (mapped_fixed S) (list_or_empty procInfo))"

definition api_processes_fixed ::
  "(string \<Rightarrow> jsnum) \<Rightarrow> process list option settled \<Rightarrow> error + fixed_process list" where
  "api_processes_fixed S procs_q =
     and_then (settle procs_q) (\<lambda>procInfo. Inr (take 5 (ranked_fixed S procInfo)))"

section \<open>/api/logs\<close>

text \<open>What the handler finds at the path of the log file.\<close>

datatype log_file = Missing | Content string | Unreadable string

definition is_space :: "char \<Rightarrow> bool" where
  "is_space c = ((of_char c :: nat) \<in> {9, 10, 11, 12, 13, 32})"

text \<open>\<open>s.trim()\<close>, on the white space of ASCII.\<close>

definition trim :: "string \<Rightarrow> string" where
  "trim s = rev (dropWhile is_space (rev (dropWhile is_space s)))"

text \<open>\<open>s.split('\n')\<close>: the pieces between line feeds; the empty string has one empty
  piece.\<close>

fun split_lines :: "string \<Rightarrow> string list" where
  "split_lines [] = [[]]"
| "split_lines (c # cs) =
     (if c = CHR 0x0A then [] # split_lines cs
      else (case split_lines cs of [] \<Rightarrow> [[c]] | l # ls \<Rightarrow> (c # l) # ls))"

text \<open>
  \<open>parseInt(s, 10)\<close>: leading white space, a sign, then the longest run of decimal digits;
  \<open>None\<close> is \<open>NaN\<close>. A query parameter that is not sent is \<open>undefined\<close>, which reads as
  \<open>NaN\<close> too.
\<close>

definition parseInt10 :: "string \<Rightarrow> int option" where
  "parseInt10 s =
     (let s1 = dropWhile is_space s;
          neg = (case s1 of [] \<Rightarrow> False | c # _ \<Rightarrow> c = CHR ''-'');
          s2 = (case s1 of [] \<Rightarrow> [] | c # r \<Rightarrow> if c = CHR ''-'' \<or> c = CHR ''+'' then r else s1);
          ds = takeWhile is_digit s2
      in if ds = [] then None
         else Some (if neg then - int (digits_value ds) else int (digits_value ds)))"

definition parse_n :: "string option \<Rightarrow> int" where
  "parse_n q =
     (case (case q of None \<Rightarrow> None | Some s \<Rightarrow> parseInt10 s) of
        None \<Rightarrow> 200
      | Some n \<Rightarrow> if n = 0 then 200 else n)"

text \<open>\<^verbatim>\<open>app.get('/api/logs', ...)\<close> (script.js 594-604).\<close>

definition api_logs :: "log_file \<Rightarrow> string option \<Rightarrow> error + string list" where
  "api_logs file q =
     (case file of
        Missing \<Rightarrow> Inr []
      | Unreadable m \<Rightarrow> Inl (IOError m)
      | Content text \<Rightarrow>
          (let n = parse_n q;
               all = split_lines (trim text)
           in Inr (slice_from (- n) all)))"

section \<open>/api/snapshot\<close>

datatype export = PdfDocument "string list" | CsvText string

definition lower_char :: "char \<Rightarrow> char" where
  "lower_char c = (if 65 \<le> (of_char c :: nat) \<and> (of_char c :: nat) \<le> 90
                   then char_of ((of_char c :: nat) + 32) else c)"

text \<open>\<open>s.toLowerCase()\<close>, on the letters of ASCII.\<close>

definition toLowerCase :: "string \<Rightarrow> string" where
  "toLowerCase s = map lower_char s"

text \<open>\<open>(req.query.fmt || 'csv').toLowerCase()\<close>\<close>

definition snapshot_fmt :: "string option \<Rightarrow> string" where
  "snapshot_fmt q = toLowerCase (case q of None \<Rightarrow> ''csv'' | Some s \<Rightarrow> if s = [] then ''csv'' else s)"

text \<open>\<open>s.replace(/"/g, '""')\<close>\<close>

definition double_quotes :: "string \<Rightarrow> string" where
  "double_quotes s = concat (map (\<lambda>c. if c = CHR 0x22 then [CHR 0x22, CHR 0x22] else [c]) s)"

text \<open>
  \<open>(p.name || '').replace(...)\<close>: a name that is truthy and not a string has no
  \<open>replace\<close>, and the call raises.
\<close>

definition escaped_name :: "(jsval \<Rightarrow> string) \<Rightarrow> jsval \<Rightarrow> error + string" where
  "escaped_name T name =
     (case or_else name (JStr []) of
        JStr s \<Rightarrow> Inr (double_quotes s)
      | JFixed n \<Rightarrow> Inr (double_quotes (T (JFixed n)))
      | _ \<Rightarrow> Inl (TypeError ''replace is not a function''))"

definition csv_row :: "(jsval \<Rightarrow> string) \<Rightarrow> process \<Rightarrow> error + string" where
  "csv_row T p =
     (let cpu = nullish (p_pcpu p) (nullish (p_cpu p) (JNum (Fin 0)));
          memv = nullish (p_pmem p) (nullish (p_mem p) (JNum (Fin 0)))
      in and_then (escaped_name T (p_name p)) (\<lambda>name.
           Inr (T (p_pid p) @ [CHR '','', CHR 0x22] @ name @ [CHR 0x22, CHR '',''] @ T cpu
                @ '','' @ T memv @ [CHR 0x0A])))"

text \<open>\<open>topProcs.forEach(p => { csv += ... })\<close>\<close>

fun csv_rows :: "(jsval \<Rightarrow> string) \<Rightarrow> string \<Rightarrow> process list \<Rightarrow> error + string" where
  "csv_rows T csv [] = Inr csv"
| "csv_rows T csv (p # ps) = and_then (csv_row T p) (\<lambda>row. csv_rows T (csv @ row) ps)"

definition em_dash :: string where
  "em_dash = [CHR 0xE2, CHR 0x80, CHR 0x94]"

definition pdf_row :: "(jsval \<Rightarrow> string) \<Rightarrow> process \<Rightarrow> string" where
  "pdf_row T p =
     T (p_pid p) @ '' '' @ T (p_name p) @ '' '' @ em_dash @ '' CPU:''
       @ T (nullish (p_pcpu p) (nullish (p_cpu p) (JNum (Fin 0)))) @ ''% MEM:''
       @ T (nullish (p_pmem p) (nullish (p_mem p) (JNum (Fin 0)))) @ ''%''"

text \<open>\<^verbatim>\<open>(a,b)=> (b.pcpu ?? b.cpu ?? 0) - (a.pcpu ?? a.cpu ?? 0)\<close>\<close>

definition by_pcpu_desc :: "(string \<Rightarrow> jsnum) \<Rightarrow> process \<Rightarrow> process \<Rightarrow> jsnum" where
  "by_pcpu_desc S a b =
     js_sub S (nullish (p_pcpu b) (nullish (p_cpu b) (JNum (Fin 0))))
              (nullish (p_pcpu a) (nullish (p_cpu a) (JNum (Fin 0))))"

text \<open>\<open>battery?.hasbattery ? (battery.percent ?? 'N/A') : 'N/A'\<close> (script.js 615)\<close>

definition snapshot_batteryVal :: "battery option \<Rightarrow> jsval" where
  "snapshot_batteryVal battery =
     (if truthy (opt_field hasbattery battery)
      then nullish (opt_field percent battery) (JStr ''N/A'') else JStr ''N/A'')"

text \<open>
  \<^verbatim>\<open>app.get('/api/snapshot', ...)\<close> (script.js 607-652); \<open>time\<close> is
  \<open>new Date().toISOString()\<close>.
\<close>

definition api_snapshot ::
  "(string \<Rightarrow> jsnum) \<Rightarrow> (jsval \<Rightarrow> string) \<Rightarrow> string \<Rightarrow> string option \<Rightarrow> cpuload option settled
    \<Rightarrow> memory option settled \<Rightarrow> battery option settled \<Rightarrow> process list option settled
    \<Rightarrow> error + export" where
  "api_snapshot S T time fmt_q stats_q mem_q battery_q procs_q =
     (let fmt = snapshot_fmt fmt_q in
     and_then (settle stats_q) (\<lambda>stats.
     and_then (settle mem_q) (\<lambda>mem.
     and_then (settle battery_q) (\<lambda>battery.
     and_then (settle procs_q) (\<lambda>procs.
       (case stats of
          None \<Rightarrow> Inl (TypeError ''Cannot read properties of undefined (reading currentLoad)'')
        | Some st \<Rightarrow>
            (let cpuVal = to_number S (nullish (opt_toFixed2 (currentLoad st))
                                        (nullish (currentLoad st) (JNum (Fin 0))));
                 ramVal = to_number S (JFixed (num_mul
                            (js_div S (nullish (opt_field m_active mem) (JNum (Fin 0)))
                                      (nullish (opt_field m_total mem) (JNum (Fin 1))))
                            (Fin 100)));
                 batteryVal = snapshot_batteryVal battery;
                 topProcs = take 10 (js_sort (by_pcpu_desc S) (list_or_empty procs))
             in if fmt = ''pdf''
                then Inr (PdfDocument
                       ([''OS Dashboard Snapshot'', ''Time: '' @ time,
                         ''CPU: '' @ T (JNum cpuVal) @ ''%'', ''RAM: '' @ T (JNum ramVal) @ ''%'',
                         ''Battery: '' @ T batteryVal, ''Top processes (sample):'']
                        @ map (pdf_row T) topProcs))
                else and_then
                       (csv_rows T
                          (''time,cpu%,ram%,battery%'' @ [CHR 0x0A]
                           @ time @ '','' @ T (JNum cpuVal) @ '','' @ T (JNum ramVal) @ '',''
                           @ T batteryVal @ [CHR 0x0A, CHR 0x0A]
                           @ ''pid,name,cpu,mem'' @ [CHR 0x0A])
                          topProcs)
                       (\<lambda>csv. Inr (CsvText csv)))))))))"

section \<open>getBatteryInfo, the variant with the power-supply fallback\<close>

text \<open>
  \<^verbatim>\<open>async function getBatteryInfo()\<close> (script.js 329-350). The second query is only
  awaited when the first reports nothing; a rejection of either ends in the \<open>catch\<close>.
\<close>

definition getBatteryInfo_ps ::
  "(string \<Rightarrow> jsnum) \<Rightarrow> battery option settled \<Rightarrow> powersupply option settled \<Rightarrow> jsval" where
  "getBatteryInfo_ps S battery_q ps_q =
     (case battery_q of
        Rejected m \<Rightarrow> Null
      | Fulfilled battery \<Rightarrow>
          (if (case battery of None \<Rightarrow> False
               | Some b \<Rightarrow> truthy (hasbattery b) \<or> gt_zero S (percent b) \<or> gt_zero S (maxcapacity b))
           then nullish (opt_field percent battery) Null
           else (case ps_q of
                   Rejected m \<Rightarrow> Null
                 | Fulfilled ps \<Rightarrow>
                     (if (case ps of None \<Rightarrow> False | Some p \<Rightarrow> truthy (ps_percent p))
                      then opt_field ps_percent ps else Null))))"

section \<open>getBatteryInfo, the variant with the mock fallback\<close>

text \<open>
  \<^verbatim>\<open>async function getBatteryInfo()\<close> (script.js 163-189). \<open>r1\<close> and \<open>r2\<close> are the two
  results of \<open>Math.random()\<close>, each in the interval from 0 up to 1.
\<close>

definition mock_battery_info :: "rat \<Rightarrow> rat \<Rightarrow> battery_info" where
  "mock_battery_info r1 r2 =
     \<lparr>bi_percent = JNum (num_add (math_floor (num_mul (Fin r1) (Fin (100 - 60 + 1)))) (Fin 60)),
      bi_isCharging = JBool (1 / 2 < r2)\<rparr>"

definition getBatteryInfo_mock :: "battery option settled \<Rightarrow> rat \<Rightarrow> rat \<Rightarrow> battery_info" where
  "getBatteryInfo_mock battery_q r1 r2 =
     (case battery_q of
        Rejected m \<Rightarrow> mock_battery_info r1 r2
      | Fulfilled None \<Rightarrow> mock_battery_info r1 r2
      | Fulfilled (Some b) \<Rightarrow>
          (if truthy (hasbattery b)
           then \<lparr>bi_percent = nullish (percent b) (JStr ''N/A''),
                 bi_isCharging = nullish (ischarging b) (JBool False)\<rparr>
           else mock_battery_info r1 r2))"

section \<open>Vocabulary of the properties\<close>

text \<open>A number that is a percentage: finite and between 0 and 100.\<close>

definition in_percent_range :: "jsnum \<Rightarrow> bool" where
  "in_percent_range n = (case n of Fin q \<Rightarrow> 0 \<le> q \<and> q \<le> 100 | _ \<Rightarrow> False)"






text \<open>A battery field as the specification wants it: an absent marker or a percentage.\<close>

fun absent_or_percent :: "jsval \<Rightarrow> bool" where
  "absent_or_percent Undefined = True"
| "absent_or_percent Null = True"
| "absent_or_percent (JNum n) = in_percent_range n"
| "absent_or_percent _ = False"

text \<open>The percent of a battery reading that says it has a battery and carries a
  percent.\<close>

definition reported_percent :: "battery option \<Rightarrow> jsval option" where
  "reported_percent bat =
     (case bat of
        None \<Rightarrow> None
      | Some b \<Rightarrow>
          if truthy (hasbattery b) \<and> percent b \<noteq> Undefined \<and> percent b \<noteq> Null
          then Some (percent b) else None)"

text \<open>What the two battery queries say, for the variant with the fallback.\<close>

definition is_fulfilled :: "'a settled \<Rightarrow> bool" where
  "is_fulfilled q = (case q of Fulfilled _ \<Rightarrow> True | Rejected _ \<Rightarrow> False)"

definition primary_present :: "(string \<Rightarrow> jsnum) \<Rightarrow> battery option settled \<Rightarrow> bool" where
  "primary_present S q =
     (case q of
        Fulfilled (Some b) \<Rightarrow>
          truthy (hasbattery b) \<or> gt_zero S (percent b) \<or> gt_zero S (maxcapacity b)
      | _ \<Rightarrow> False)"

definition primary_percent :: "battery option settled \<Rightarrow> jsval" where
  "primary_percent q = (case q of Fulfilled (Some b) \<Rightarrow> percent b | _ \<Rightarrow> Undefined)"

definition secondary_percent :: "powersupply option settled \<Rightarrow> jsval" where
  "secondary_percent q = (case q of Fulfilled (Some p) \<Rightarrow> ps_percent p | _ \<Rightarrow> Undefined)"

text \<open>The value of a finite number (0 for the others).\<close>

definition num_value :: "jsnum \<Rightarrow> rat" where
  "num_value n = (case n of Fin q \<Rightarrow> q | _ \<Rightarrow> 0)"

text \<open>
  A key that is smaller for the larger number: the descending order of the numbers
  that are not \<open>NaN\<close>, the infinities included, as an ascending order of pairs.
\<close>

definition desc_key :: "jsnum \<Rightarrow> int \<times> rat" where
  "desc_key n =
     (case n of PosInf \<Rightarrow> (- 1, 0) | Fin q \<Rightarrow> (0, - q) | NegInf \<Rightarrow> (1, 0) | NaN \<Rightarrow> (2, 0))"


text \<open>\<open>Math.round(x * 100) / 100\<close> on a finite \<open>x\<close>: the product rounded to a double,
  its nearest integer (a tie going up), and the quotient rounded to a double.\<close>

definition round_cents :: "rat \<Rightarrow> jsnum" where
  "round_cents x =
     (case double (x * 100) of
        Fin y \<Rightarrow> double (of_int \<lfloor>y + 1 / 2\<rfloor> / 100)
      | PosInf \<Rightarrow> PosInf
      | NegInf \<Rightarrow> NegInf
      | NaN \<Rightarrow> NaN)"


text \<open>Process entries for the examples: a pid, a name and the \<open>cpu\<close> field, every other
  field left out; and the entry of the reply with a given cpu.\<close>

definition proc :: "nat \<Rightarrow> string \<Rightarrow> jsval \<Rightarrow> process" where
  "proc pid name cpu =
     \<lparr>p_pid = JNum (Fin (of_nat pid)), p_name = JStr name, p_command = Undefined,
      p_pcpu = Undefined, p_cpu = cpu, p_cpuPercent = Undefined, p_cpuUsage = Undefined,
      p_pmem = Undefined, p_mem = Undefined, p_memPercent = Undefined\<rparr>"

definition entry :: "nat \<Rightarrow> string \<Rightarrow> rat \<Rightarrow> top_process" where
  "entry pid name cpu =
     \<lparr>t_pid = JNum (Fin (of_nat pid)), t_name = JStr name, t_cpu = Fin cpu, t_mem = Fin 0\<rparr>"

text \<open>
  Reading a quoted field of a CSV line back: the field stands between two quotes, and
  inside them a quote is written twice.
\<close>

fun undouble :: "string \<Rightarrow> string option" where
  "undouble [] = Some []"
| "undouble [c] = (if c = CHR 0x22 then None else Some [c])"
| "undouble (c # d # ds) =
     (if c = CHR 0x22
      then (if d = CHR 0x22 then map_option ((#) (CHR 0x22)) (undouble ds) else None)
      else map_option ((#) c) (undouble (d # ds)))"

definition csv_unquote :: "string \<Rightarrow> string option" where
  "csv_unquote f =
     (case f of
        [] \<Rightarrow> None
      | c # rest \<Rightarrow>
          if c = CHR 0x22 \<and> rest \<noteq> [] \<and> last rest = CHR 0x22
          then undouble (butlast rest) else None)"

text \<open>
  A name the export can write: a string, or a value that counts as no name (\<open>undefined\<close>,
  \<open>null\<close>, \<open>false\<close>, 0, \<open>NaN\<close>), written as the empty string.
\<close>

definition text_name :: "jsval \<Rightarrow> bool" where
  "text_name v = (case v of JStr s \<Rightarrow> True | JFixed n \<Rightarrow> False | _ \<Rightarrow> \<not> truthy v)"

definition name_text :: "jsval \<Rightarrow> string" where
  "name_text v = (case v of JStr s \<Rightarrow> s | _ \<Rightarrow> [])"

definition is_pdf :: "export \<Rightarrow> bool" where
  "is_pdf e = (case e of PdfDocument _ \<Rightarrow> True | CsvText _ \<Rightarrow> False)"

text \<open>
  The log as a sequence of appended lines. A line as the logger writes it has no line
  feed, starts with the bracket of its timestamp and ends in a visible character.
\<close>

definition log_line_ok :: "string \<Rightarrow> bool" where
  "log_line_ok l =
     (l \<noteq> [] \<and> CHR 0x0A \<notin> set l \<and> \<not> is_space (hd l) \<and> \<not> is_space (last l))"

definition log_text :: "string list \<Rightarrow> string" where
  "log_text ls = concat (map (\<lambda>l. l @ [CHR 0x0A]) ls)"

text \<open>
  The text of a value for the examples, as a template literal prints it: exact for
  strings, the two markers, booleans, \<open>NaN\<close>, the infinities and the numbers with at most
  two decimals.
\<close>

function show_nat :: "nat \<Rightarrow> string" where
  "show_nat n = (if n < 10 then [char_of (48 + n)] else show_nat (n div 10) @ [char_of (48 + n mod 10)])"
  by pat_completeness auto
termination
  by (relation "measure id") auto

declare show_nat.simps [simp del]

definition show_cents :: "nat \<Rightarrow> string" where
  "show_cents h =
     (if h mod 100 = 0 then show_nat (h div 100)
      else if h mod 10 = 0 then show_nat (h div 100) @ ''.'' @ show_nat (h mod 100 div 10)
      else show_nat (h div 100) @ ''.'' @ show_nat (h mod 100 div 10) @ show_nat (h mod 10))"

definition show_fixed2 :: "nat \<Rightarrow> string" where
  "show_fixed2 h = show_nat (h div 100) @ ''.'' @ show_nat (h mod 100 div 10) @ show_nat (h mod 10)"

fun plain_text :: "jsval \<Rightarrow> string" where
  "plain_text Undefined = ''undefined''"
| "plain_text Null = ''null''"
| "plain_text (JBool b) = (if b then ''true'' else ''false'')"
| "plain_text (JNum NaN) = ''NaN''"
| "plain_text (JNum PosInf) = ''Infinity''"
| "plain_text (JNum NegInf) = ''-Infinity''"
| "plain_text (JNum (Fin q)) =
     (if q < 0 then ''-'' @ show_cents (nat \<lfloor>- q * 100\<rfloor>) else show_cents (nat \<lfloor>q * 100\<rfloor>))"
| "plain_text (JStr s) = s"
| "plain_text (JFixed NaN) = ''NaN''"
| "plain_text (JFixed PosInf) = ''Infinity''"
| "plain_text (JFixed NegInf) = ''-Infinity''"
| "plain_text (JFixed (Fin q)) =
     (if q < 0 then ''-'' @ show_fixed2 (nat \<lfloor>- q * 100 + 1 / 2\<rfloor>)
      else show_fixed2 (nat \<lfloor>q * 100 + 1 / 2\<rfloor>))"

text \<open>The cpu of an entry of the variant with strings, read as a number; and a raw entry
  whose cpu converts to a finite number.\<close>

definition fixed_cpu_value :: "(string \<Rightarrow> jsnum) \<Rightarrow> fixed_process \<Rightarrow> rat" where
  "fixed_cpu_value S t = num_value (to_number S (f_cpu t))"

definition numeric_cpu :: "(string \<Rightarrow> jsnum) \<Rightarrow> process \<Rightarrow> bool" where
  "numeric_cpu S p = is_finite (to_number S (nullish (p_pcpu p) (nullish (p_cpu p) (JNum (Fin 0)))))"

text \<open>A battery query that resolves to a reading with a truthy \<open>hasbattery\<close>.\<close>

definition has_battery :: "battery option settled \<Rightarrow> bool" where
  "has_battery q = (case q of Fulfilled (Some b) \<Rightarrow> truthy (hasbattery b) | _ \<Rightarrow> False)"

section \<open>Threshold update\<close>

text \<open>
  C7. The update takes each of cpu, ram and battery from the body when the body's field
  is a number and keeps the stored value otherwise (a field of another type is passed
  over, the request is still answered with success); the reply carries the resulting
  configuration. A body that holds only cpu = 95 sets cpu to 95 and leaves ram and
  battery as they were.
\<close>

theorem post_thresholds_merge:
  "th_cpu (fst (post_thresholds th (Some b))) =
       (if is_number (b_cpu b) then b_cpu b else th_cpu th)
   \<and> th_ram (fst (post_thresholds th (Some b))) =
       (if is_number (b_ram b) then b_ram b else th_ram th)
   \<and> th_battery (fst (post_thresholds th (Some b))) =
       (if is_number (b_battery b) then b_battery b else th_battery th)
   \<and> snd (post_thresholds th body) =
       \<lparr>success = True, res_thresholds = fst (post_thresholds th body)\<rparr>
   \<and> fst (post_thresholds th None) = th
   \<and> fst (post_thresholds th (Some (empty_body\<lparr>b_cpu := JNum (Fin 95)\<rparr>))) =
       th\<lparr>th_cpu := JNum (Fin 95)\<rparr>
   \<and> th_ram (fst (post_thresholds th (Some (empty_body\<lparr>b_cpu := JNum (Fin 95)\<rparr>)))) = th_ram th
   \<and> th_battery (fst (post_thresholds th (Some (empty_body\<lparr>b_cpu := JNum (Fin 95)\<rparr>)))) =
       th_battery th"
proof -
  have c: "th_cpu (fst (post_thresholds th (Some b))) =
       (if is_number (b_cpu b) then b_cpu b else th_cpu th)"
    by (simp add: post_thresholds_def Let_def)
  have r: "th_ram (fst (post_thresholds th (Some b))) =
       (if is_number (b_ram b) then b_ram b else th_ram th)"
    by (simp add: post_thresholds_def Let_def)
  have t: "th_battery (fst (post_thresholds th (Some b))) =
       (if is_number (b_battery b) then b_battery b else th_battery th)"
    by (simp add: post_thresholds_def Let_def)
  have s: "snd (post_thresholds th body) =
       \<lparr>success = True, res_thresholds = fst (post_thresholds th body)\<rparr>"
    by (simp add: post_thresholds_def Let_def)
  have n: "fst (post_thresholds th None) = th"
    by (simp add: post_thresholds_def Let_def empty_body_def)
  have e: "fst (post_thresholds th (Some (empty_body\<lparr>b_cpu := JNum (Fin 95)\<rparr>))) =
       th\<lparr>th_cpu := JNum (Fin 95)\<rparr>"
    by (simp add: post_thresholds_def Let_def empty_body_def)
  from c r t s n e show ?thesis by simp
qed

text \<open>The update of C7 on the initial configuration, with a body whose ram is a string.\<close>

theorem post_thresholds_merge_example:
  "fst (post_thresholds initial_thresholds
      (Some \<lparr>b_cpu = JNum (Fin 95), b_ram = JStr ''70'', b_battery = Undefined\<rparr>)) =
   \<lparr>th_cpu = JNum (Fin 95), th_ram = JNum (Fin 85), th_battery = JNum (Fin 15)\<rparr>"
proof -
  let ?b = "\<lparr>b_cpu = JNum (Fin 95), b_ram = JStr ''70'', b_battery = Undefined\<rparr>"
  have "th_cpu (fst (post_thresholds initial_thresholds (Some ?b))) = JNum (Fin 95)"
    and "th_ram (fst (post_thresholds initial_thresholds (Some ?b))) = JNum (Fin 85)"
    and "th_battery (fst (post_thresholds initial_thresholds (Some ?b))) = JNum (Fin 15)"
    using post_thresholds_merge [of initial_thresholds ?b]
    by (simp_all add: initial_thresholds_def)
  then show ?thesis
    by (cases "fst (post_thresholds initial_thresholds (Some ?b))") simp
qed

section \<open>Evaluation of floors\<close>

lemma floor_rat_numeral [simp]:
  "\<lfloor>numeral a / numeral b :: rat\<rfloor> = numeral a div numeral b"
  by (metis floor_divide_of_int_eq of_int_numeral)

lemma floor_rat_minus_numeral [simp]:
  "\<lfloor>- (numeral a / numeral b) :: rat\<rfloor> = - numeral a div numeral b"
  by (metis divide_minus_left floor_divide_of_int_eq of_int_neg_numeral of_int_numeral)

lemma floor_rat_one_numeral [simp]: "\<lfloor>1 / numeral b :: rat\<rfloor> = 1 div numeral b"
  by (metis floor_divide_of_int_eq of_int_1 of_int_numeral)

section \<open>Range of the percentages\<close>


lemma api_stats_fulfilled:
  "api_stats S (Fulfilled (Some c)) (Fulfilled mem) (Fulfilled bat) (Fulfilled fs) (Fulfilled g) =
    Inr \<lparr>s_cpu = to_number S (nullish (opt_toFixed2 (currentLoad c))
                       (nullish (currentLoad c) (JNum (Fin 0)))),
         s_ram = to_number S (JFixed (num_mul
                   (js_div S (nullish (opt_field m_active mem) (JNum (Fin 0)))
                             (nullish (opt_field m_total mem) (JNum (Fin 1))))
                   (Fin 100))),
         s_battery = (if truthy (opt_field hasbattery bat)
                      then nullish (opt_field percent bat) Null else Null),
         s_ssd = map ssd_entry (list_or_empty fs),
         s_gpu = map gpu_entry (list_or_empty g)\<rparr>"
  by (simp add: api_stats_def and_then_def Let_def)

lemma api_stats_Inr:
  assumes "api_stats S c m b f g = Inr st"
  obtains cl m' b' f' g' where "c = Fulfilled (Some cl)" and "m = Fulfilled m'"
    and "b = Fulfilled b'" and "f = Fulfilled f'" and "g = Fulfilled g'"
proof -
  from assms obtain c' m' b' f' g' where
    q: "c = Fulfilled c'" "m = Fulfilled m'" "b = Fulfilled b'" "f = Fulfilled f'" "g = Fulfilled g'"
    by (cases c; cases m; cases b; cases f; cases g) (simp_all add: api_stats_def and_then_def)
  from assms q obtain cl where "c' = Some cl"
    by (cases c') (simp_all add: api_stats_def and_then_def)
  with q that show thesis by simp
qed








lemma api_stats_example:
  "api_stats plain_reading
        (Fulfilled (Some \<lparr>currentLoad = JNum (Fin (12345 / 1000))\<rparr>))
        (Fulfilled (Some \<lparr>m_used = JNum (Fin 6000), m_active = JNum (Fin 4000),
           m_total = JNum (Fin 16000)\<rparr>))
        (Fulfilled None) (Fulfilled None) (Fulfilled None) =
     Inr \<lparr>s_cpu = Fin (247 / 20), s_ram = Fin 25, s_battery = Null, s_ssd = [], s_gpu = []\<rparr>"
  by (simp add: api_stats_fulfilled nullish_def opt_field_def js_div_def round2_def
      list_or_empty_def)

section \<open>The two loggers and the live query\<close>

text \<open>
  C2, as stated, fails between the cited logger of server.cjs and GET /api/stats: on a
  reading with 50 units used and 25 active of 100, the logger stores the text of 50.00
  for memory and the live query answers 25.
\<close>

theorem logger_stats_disagree:
  "i_memory (snd (cron_logEntry plain_reading ''2025-01-01T00:00:00.000Z''
       (Fulfilled (Some \<lparr>currentLoad = JNum (Fin 10)\<rparr>))
       (Fulfilled (Some \<lparr>m_used = JNum (Fin 50), m_active = JNum (Fin 25),
          m_total = JNum (Fin 100)\<rparr>))
       (Fulfilled None))) = JFixed (Fin 50)
   \<and> map_sum id s_ram (api_stats plain_reading
       (Fulfilled (Some \<lparr>currentLoad = JNum (Fin 10)\<rparr>))
       (Fulfilled (Some \<lparr>m_used = JNum (Fin 50), m_active = JNum (Fin 25),
          m_total = JNum (Fin 100)\<rparr>))
       (Fulfilled None) (Fulfilled None) (Fulfilled None)) = Inr (Fin 25)
   \<and> to_number plain_reading (JFixed (Fin 50)) = Fin 50"
  by (simp add: cron_logEntry_def getSystemInfo_def api_stats_def and_then_def Let_def js_div_def
      nullish_def opt_field_def round2_def getBatteryInfo_def)

text \<open>
  C2, amended. In the robust variant, whenever GET /api/stats answers, the every-minute
  logger run on the same readings computes the same cpu and the same ram (both from the
  active memory, both rounded to two decimals). In server.cjs the live query
  /api/resource and the five-minute logger are one operation, getSystemInfo.
\<close>

theorem stats_cron_agree:
  assumes "api_stats S c m b f g = Inr st"
  shows "(\<exists>v. cron_poll S c m b = Inr v \<and> cpuVal v = s_cpu st \<and> ramVal v = s_ram st)
         \<and> api_resource S c m b = snd (cron_logEntry S ts c m b)"
proof -
  from assms obtain cl m' b' f' g' where
    q: "c = Fulfilled (Some cl)" "m = Fulfilled m'" "b = Fulfilled b'" "f = Fulfilled f'"
      "g = Fulfilled g'"
    by (rule api_stats_Inr)
  from assms have "\<exists>v. cron_poll S c m b = Inr v \<and> cpuVal v = s_cpu st \<and> ramVal v = s_ram st"
    unfolding q by (auto simp: api_stats_def cron_poll_def and_then_def Let_def)
  then show ?thesis
    by (simp add: api_resource_def cron_logEntry_def)
qed

text \<open>The poll of the example above, logged.\<close>

theorem stats_cron_agree_witness:
  "\<exists>v. cron_poll plain_reading
        (Fulfilled (Some \<lparr>currentLoad = JNum (Fin (12345 / 1000))\<rparr>))
        (Fulfilled (Some \<lparr>m_used = JNum (Fin 6000), m_active = JNum (Fin 4000),
           m_total = JNum (Fin 16000)\<rparr>))
        (Fulfilled None) = Inr v
      \<and> cpuVal v = Fin (247 / 20) \<and> ramVal v = Fin 25"
  using stats_cron_agree [OF api_stats_example] by simp

section \<open>The battery field\<close>

text \<open>
  C1, as stated, fails in two ways. For a machine whose sensor reports no battery, the
  export builder, the every-minute logger and getSystemInfo of server.cjs all take the
  text N/A as the battery value, which is neither an absent marker nor a number. And no
  path bounds the number: a sensor that reports a battery at 150 percent gives a Stats
  of GET /api/stats whose battery is 150.
\<close>

theorem battery_placeholder_string:
  "snapshot_batteryVal (Some \<lparr>hasbattery = JBool False, percent = JNum (Fin 0),
       maxcapacity = JNum (Fin 0), ischarging = JBool False\<rparr>) = JStr ''N/A''
   \<and> \<not> absent_or_percent (JStr ''N/A'')
   \<and> map_sum id battVal (cron_poll plain_reading
        (Fulfilled (Some \<lparr>currentLoad = JNum (Fin 10)\<rparr>)) (Fulfilled None)
        (Fulfilled (Some \<lparr>hasbattery = JBool False, percent = JNum (Fin 0),
           maxcapacity = JNum (Fin 0), ischarging = JBool False\<rparr>))) = Inr (JStr ''N/A'')
   \<and> i_battery (getSystemInfo plain_reading
        (Fulfilled (Some \<lparr>currentLoad = JNum (Fin 10)\<rparr>))
        (Fulfilled (Some \<lparr>m_used = JNum (Fin 50), m_active = JNum (Fin 25),
           m_total = JNum (Fin 100)\<rparr>))
        (Fulfilled (Some \<lparr>hasbattery = JBool False, percent = JNum (Fin 0),
           maxcapacity = JNum (Fin 0), ischarging = JBool False\<rparr>))) = JStr ''N/A''
   \<and> map_sum id s_battery (api_stats plain_reading
        (Fulfilled (Some \<lparr>currentLoad = JNum (Fin 10)\<rparr>)) (Fulfilled None)
        (Fulfilled (Some \<lparr>hasbattery = JBool True, percent = JNum (Fin 150),
           maxcapacity = JNum (Fin 100), ischarging = JBool False\<rparr>))
        (Fulfilled None) (Fulfilled None)) = Inr (JNum (Fin 150))
   \<and> \<not> absent_or_percent (JNum (Fin 150))"
  by (simp add: snapshot_batteryVal_def cron_poll_def and_then_def opt_field_def
      getSystemInfo_def getBatteryInfo_def Let_def no_battery_info_def api_stats_fulfilled
      nullish_def in_percent_range_def)

lemma stats_battery:
  assumes "api_stats S c m (Fulfilled bat) f g = Inr st"
  shows "s_battery st = (case reported_percent bat of None \<Rightarrow> Null | Some v \<Rightarrow> v)"
proof -
  from assms obtain cl m' f' g' where
    q: "c = Fulfilled (Some cl)" "m = Fulfilled m'" "f = Fulfilled f'" "g = Fulfilled g'"
    by (rule api_stats_Inr)
  from assms have "s_battery st = (if truthy (opt_field hasbattery bat)
      then nullish (opt_field percent bat) Null else Null)"
    unfolding q api_stats_fulfilled by auto
  then show ?thesis
    by (cases bat) (auto simp: reported_percent_def opt_field_def nullish_def)
qed

lemma cron_battery:
  assumes "cron_poll S c m (Fulfilled bat) = Inr cv"
  shows "battVal cv = (case reported_percent bat of None \<Rightarrow> JStr ''N/A'' | Some v \<Rightarrow> v)"
proof -
  from assms obtain c' m' where q: "c = Fulfilled c'" "m = Fulfilled m'"
    by (cases c; cases m) (simp_all add: cron_poll_def and_then_def)
  from assms q obtain cl where cl: "c' = Some cl"
    by (cases c') (simp_all add: cron_poll_def and_then_def)
  from assms have "battVal cv = (if truthy (opt_field hasbattery bat)
      then nullish (opt_field percent bat) (JStr ''N/A'') else JStr ''N/A'')"
    unfolding q cl by (auto simp: cron_poll_def and_then_def)
  then show ?thesis
    by (cases bat) (auto simp: reported_percent_def opt_field_def nullish_def)
qed

lemma snapshot_battery:
  "snapshot_batteryVal bat = (case reported_percent bat of None \<Rightarrow> JStr ''N/A'' | Some v \<Rightarrow> v)"
  by (cases bat) (auto simp: snapshot_batteryVal_def reported_percent_def opt_field_def nullish_def)

lemma getSystemInfo_battery:
  "i_battery (getSystemInfo S c m (Fulfilled bat)) = JStr ''N/A''
   \<or> reported_percent bat = Some (i_battery (getSystemInfo S c m (Fulfilled bat)))"
  by (cases bat)
    (auto simp: getSystemInfo_def getBatteryInfo_def na_sysinfo_def no_battery_info_def Let_def
      reported_percent_def nullish_def
      split: settled.splits option.splits jsval.splits)

text \<open>
  C1, amended. In the robust variant (script.js 500-686) the battery of the Stats of
  GET /api/stats (528-558) is \<open>null\<close> when the sensor reports no battery or no percent,
  and the percent as reported otherwise; so it is an absent marker or a number from 0
  to 100 exactly when the reported percent, if there is one, is. The every-minute
  logger (669-680) and the export builder (607-652) take the text N/A in place of
  \<open>null\<close>, and the reported percent otherwise; getSystemInfo of server.cjs yields N/A or
  the reported percent.
\<close>

theorem battery_field_values:
  assumes "api_stats S c m (Fulfilled bat) f g = Inr st"
    and "cron_poll S c' m' (Fulfilled bat) = Inr cv"
  shows "s_battery st = (case reported_percent bat of None \<Rightarrow> Null | Some v \<Rightarrow> v)
    \<and> absent_or_percent (s_battery st) =
        (case reported_percent bat of None \<Rightarrow> True | Some v \<Rightarrow> absent_or_percent v)
    \<and> battVal cv = (case reported_percent bat of None \<Rightarrow> JStr ''N/A'' | Some v \<Rightarrow> v)
    \<and> snapshot_batteryVal bat = (case reported_percent bat of None \<Rightarrow> JStr ''N/A'' | Some v \<Rightarrow> v)
    \<and> (i_battery (getSystemInfo S c'' m'' (Fulfilled bat)) = JStr ''N/A''
        \<or> reported_percent bat = Some (i_battery (getSystemInfo S c'' m'' (Fulfilled bat))))"
proof -
  have st: "s_battery st = (case reported_percent bat of None \<Rightarrow> Null | Some v \<Rightarrow> v)"
    using assms(1) by (rule stats_battery)
  have ok: "absent_or_percent (s_battery st) =
        (case reported_percent bat of None \<Rightarrow> True | Some v \<Rightarrow> absent_or_percent v)"
    unfolding st by (cases "reported_percent bat") simp_all
  show ?thesis
    using st ok cron_battery[OF assms(2)] snapshot_battery[of bat]
      getSystemInfo_battery[of S c'' m'' bat]
    by blast
qed

text \<open>A machine whose battery reports 80 percent: every path yields the number 80.\<close>

theorem battery_field_values_witness:
  "absent_or_percent (JNum (Fin 80))
   \<and> snapshot_batteryVal (Some \<lparr>hasbattery = JBool True, percent = JNum (Fin 80),
        maxcapacity = JNum (Fin 100), ischarging = JBool False\<rparr>) = JNum (Fin 80)"
proof -
  let ?bat = "Some \<lparr>hasbattery = JBool True, percent = JNum (Fin 80),
        maxcapacity = JNum (Fin 100), ischarging = JBool False\<rparr>"
  let ?c = "Fulfilled (Some \<lparr>currentLoad = JNum (Fin 10)\<rparr>)"
  have s: "api_stats plain_reading ?c (Fulfilled None) (Fulfilled ?bat) (Fulfilled None)
      (Fulfilled None) =
      Inr \<lparr>s_cpu = Fin 10, s_ram = Fin 0, s_battery = JNum (Fin 80), s_ssd = [], s_gpu = []\<rparr>"
    by (simp add: api_stats_fulfilled nullish_def opt_field_def js_div_def round2_def
        list_or_empty_def)
  have c: "cron_poll plain_reading ?c (Fulfilled None) (Fulfilled ?bat) =
      Inr \<lparr>cpuVal = Fin 10, ramVal = Fin 0, battVal = JNum (Fin 80)\<rparr>"
    by (simp add: cron_poll_def and_then_def nullish_def opt_field_def js_div_def round2_def)
  have r: "reported_percent ?bat = Some (JNum (Fin 80))"
    by (simp add: reported_percent_def)
  show ?thesis
    using battery_field_values [OF s c, of ?c "Fulfilled None"]
    by (simp add: r in_percent_range_def)
qed

section \<open>The battery query with the power-supply fallback\<close>

text \<open>
  C3, as stated, fails in two places. The variant with the fallback returns the absent
  marker for a sensor that reports a battery but no percent, although the power supply
  reports 80; and the variant with the mock fallback answers a machine without a battery
  with a made-up 60 percent.
\<close>

theorem battery_query_counterexample:
  "getBatteryInfo_ps plain_reading
      (Fulfilled (Some \<lparr>hasbattery = JBool True, percent = Undefined,
         maxcapacity = JNum (Fin 0), ischarging = Undefined\<rparr>))
      (Fulfilled (Some \<lparr>ps_percent = JNum (Fin 80)\<rparr>)) = Null
   \<and> primary_present plain_reading
       (Fulfilled (Some \<lparr>hasbattery = JBool True, percent = Undefined,
         maxcapacity = JNum (Fin 0), ischarging = Undefined\<rparr>))
   \<and> bi_percent (getBatteryInfo_mock
       (Fulfilled (Some \<lparr>hasbattery = JBool False, percent = JNum (Fin 0),
         maxcapacity = JNum (Fin 0), ischarging = JBool False\<rparr>)) 0 0) = JNum (Fin 60)"
  by (simp add: getBatteryInfo_ps_def primary_present_def opt_field_def nullish_def
      getBatteryInfo_mock_def mock_battery_info_def)

text \<open>
  C3, amended. The variant with the fallback returns a reading exactly when the primary
  sensor reports presence (hasbattery, or a positive percent, or a positive maximal
  capacity) together with a percent, or when the primary query answers without
  presence and the power-supply query reports a truthy percent. The reading is the
  percent of the sensor that reported it; in every other case, a rejected query
  included, the result is \<open>null\<close>. The variant of server.cjs has no fallback: it yields
  the reported percent when hasbattery is truthy and the text N/A otherwise. The variant
  with the mock fallback yields the same when hasbattery is truthy and otherwise makes a
  percent up from a random number.
\<close>

theorem getBatteryInfo_ps_reading:
  "(getBatteryInfo_ps S bq pq \<noteq> Null) =
     (primary_present S bq \<and> primary_percent bq \<noteq> Undefined \<and> primary_percent bq \<noteq> Null
      \<or> is_fulfilled bq \<and> \<not> primary_present S bq \<and> truthy (secondary_percent pq))
   \<and> getBatteryInfo_ps S bq pq =
       (if primary_present S bq then nullish (primary_percent bq) Null
        else if is_fulfilled bq \<and> truthy (secondary_percent pq) then secondary_percent pq
        else Null)
   \<and> bi_percent (getBatteryInfo bq) =
       (if has_battery bq then nullish (primary_percent bq) (JStr ''N/A'') else JStr ''N/A'')
   \<and> bi_percent (getBatteryInfo_mock bq r1 r2) =
       (if has_battery bq then nullish (primary_percent bq) (JStr ''N/A'')
        else JNum (Fin (of_int \<lfloor>r1 * 41\<rfloor> + 60)))"
proof -
  have eq: "getBatteryInfo_ps S bq pq =
       (if primary_present S bq then nullish (primary_percent bq) Null
        else if is_fulfilled bq \<and> truthy (secondary_percent pq) then secondary_percent pq
        else Null)"
    by (auto simp: getBatteryInfo_ps_def primary_present_def primary_percent_def
        secondary_percent_def is_fulfilled_def opt_field_def
        split: settled.splits option.splits)
  have "truthy v \<Longrightarrow> v \<noteq> Null" for v
    by auto
  then have iff: "(getBatteryInfo_ps S bq pq \<noteq> Null) =
     (primary_present S bq \<and> primary_percent bq \<noteq> Undefined \<and> primary_percent bq \<noteq> Null
      \<or> is_fulfilled bq \<and> \<not> primary_present S bq \<and> truthy (secondary_percent pq))"
    unfolding eq by (auto simp: nullish_def)
  have srv: "bi_percent (getBatteryInfo bq) =
       (if has_battery bq then nullish (primary_percent bq) (JStr ''N/A'') else JStr ''N/A'')"
    by (auto simp: getBatteryInfo_def has_battery_def primary_percent_def no_battery_info_def
        split: settled.splits option.splits)
  have mock: "bi_percent (getBatteryInfo_mock bq r1 r2) =
       (if has_battery bq then nullish (primary_percent bq) (JStr ''N/A'')
        else JNum (Fin (of_int \<lfloor>r1 * 41\<rfloor> + 60)))"
    by (auto simp: getBatteryInfo_mock_def has_battery_def primary_percent_def
        mock_battery_info_def split: settled.splits option.splits)
  from iff eq srv mock show ?thesis
    by blast
qed

text \<open>A desktop whose battery sensor reports nothing and whose power supply reports 55.\<close>

theorem getBatteryInfo_ps_reading_witness:
  "getBatteryInfo_ps plain_reading
      (Fulfilled (Some \<lparr>hasbattery = JBool False, percent = JNum (Fin 0),
         maxcapacity = JNum (Fin 0), ischarging = JBool False\<rparr>))
      (Fulfilled (Some \<lparr>ps_percent = JNum (Fin 55)\<rparr>)) = JNum (Fin 55)"
  using getBatteryInfo_ps_reading [of plain_reading
      "Fulfilled (Some \<lparr>hasbattery = JBool False, percent = JNum (Fin 0),
         maxcapacity = JNum (Fin 0), ischarging = JBool False\<rparr>)"
      "Fulfilled (Some \<lparr>ps_percent = JNum (Fin 55)\<rparr>)"]
  by (simp add: primary_present_def gt_zero_def is_fulfilled_def secondary_percent_def)

section \<open>Rounding to doubles\<close>

lemma exponent_bounds:
  assumes "0 < q"
  shows "2 powi (exponent q) \<le> q \<and> q < 2 powi (exponent q + 1)"
proof -
  obtain a b where ab: "quotient_of q = (a, b)"
    by (cases "quotient_of q")
  then have b: "0 < b" and q: "q = of_int a / of_int b"
    by (simp_all add: quotient_of_denom_pos quotient_of_div)
  with assms have a: "0 < a"
    by (simp add: zero_less_divide_iff)
  let ?k = "bitlen a - bitlen b"
  have la: "1 \<le> bitlen a" and lb: "1 \<le> bitlen b"
    using a b by (simp_all add: bitlen_alt_def)
  have ba: "(2::rat) powi (bitlen a - 1) \<le> of_int a \<and> of_int a < (2::rat) powi (bitlen a)"
  proof -
    have "2 ^ nat (bitlen a - 1) \<le> a \<and> a < 2 ^ nat (bitlen a)"
      using a by (rule bitlen_bounds)
    then have "(of_int (2 ^ nat (bitlen a - 1)) :: rat) \<le> of_int a
        \<and> (of_int a :: rat) < of_int (2 ^ nat (bitlen a))"
      by (simp only: of_int_le_iff of_int_less_iff)
    then show ?thesis
      using la by (simp add: power_int_def)
  qed
  have bb: "(2::rat) powi (bitlen b - 1) \<le> of_int b \<and> of_int b < (2::rat) powi (bitlen b)"
  proof -
    have "2 ^ nat (bitlen b - 1) \<le> b \<and> b < 2 ^ nat (bitlen b)"
      using b by (rule bitlen_bounds)
    then have "(of_int (2 ^ nat (bitlen b - 1)) :: rat) \<le> of_int b
        \<and> (of_int b :: rat) < of_int (2 ^ nat (bitlen b))"
      by (simp only: of_int_le_iff of_int_less_iff)
    then show ?thesis
      using lb by (simp add: power_int_def)
  qed
  have bpos: "(0::rat) < of_int b"
    using b by simp
  have up: "q < 2 powi (?k + 1)"
  proof -
    have "of_int a < (2::rat) powi (bitlen a)"
      using ba by simp
    also have "\<dots> = 2 powi (?k + 1) * 2 powi (bitlen b - 1)"
      by (simp flip: power_int_add)
    also have "\<dots> \<le> 2 powi (?k + 1) * of_int b"
      using bb by (intro mult_left_mono) simp_all
    finally show ?thesis
      unfolding q using bpos by (simp add: divide_less_eq)
  qed
  have lo: "2 powi (?k - 1) < q"
  proof -
    have "2 powi (?k - 1) * of_int b < (2::rat) powi (?k - 1) * 2 powi (bitlen b)"
      using bb by (intro mult_strict_left_mono) simp_all
    also have "\<dots> = 2 powi (bitlen a - 1)"
      by (simp flip: power_int_add)
    also have "\<dots> \<le> of_int a"
      using ba by simp
    finally show ?thesis
      unfolding q using bpos by (simp add: less_divide_eq)
  qed
  show ?thesis
    using up lo by (auto simp: exponent_def ab Let_def)
qed

lemma pow2_less: "((2::rat) powi a < 2 powi b) = (a < b)"
proof (cases "a < b")
  case True
  then show ?thesis
    by (simp add: power_int_strict_increasing)
next
  case False
  then have "(2::rat) powi b \<le> 2 powi a"
    by (intro power_int_increasing) simp_all
  with False show ?thesis
    by simp
qed

lemma pow2_le: "((2::rat) powi a \<le> 2 powi b) = (a \<le> b)"
  using pow2_less[of b a] by (simp add: not_less [symmetric])

lemma exponent_unique:
  assumes "0 < q" and "2 powi e \<le> q" and "q < 2 powi (e + 1)"
  shows "exponent q = e"
proof -
  from exponent_bounds[OF assms(1)] assms
  have "(2::rat) powi e < 2 powi (exponent q + 1)" and "(2::rat) powi (exponent q) < 2 powi (e + 1)"
    by auto
  then show ?thesis
    by (simp add: pow2_less)
qed

lemma exponent_mono:
  assumes "0 < p" and "p \<le> q"
  shows "exponent p \<le> exponent q"
proof -
  from assms have q: "0 < q" by simp
  from exponent_bounds[OF assms(1)] exponent_bounds[OF q] assms(2)
  have "(2::rat) powi (exponent p) < 2 powi (exponent q + 1)"
    by auto
  then show ?thesis by (simp add: pow2_less)
qed

lemma round_even_int [simp]: "round_even (of_int n) = n"
  by (simp add: round_even_def)

lemma round_even_mono:
  assumes "x \<le> y"
  shows "round_even x \<le> round_even y"
proof (cases "\<lfloor>x\<rfloor> = \<lfloor>y\<rfloor>")
  case True
  with assms show ?thesis
    unfolding round_even_def Let_def by auto
next
  case False
  with assms have "\<lfloor>x\<rfloor> < \<lfloor>y\<rfloor>"
    using floor_mono[OF assms] by simp
  moreover have "round_even x \<le> \<lfloor>x\<rfloor> + 1"
    unfolding round_even_def Let_def by auto
  moreover have "\<lfloor>y\<rfloor> \<le> round_even y"
    unfolding round_even_def Let_def by auto
  ultimately show ?thesis by linarith
qed

lemma pow2_times: "(2::rat) powi a * 2 powi b = 2 powi (a + b)"
  by (simp add: power_int_add)

lemma pow2_nat: "(of_int (2 ^ n) :: rat) = 2 powi (int n)"
  by (simp add: power_int_def)

lemma nearest_nonneg:
  assumes "0 < q"
  shows "0 \<le> nearest q"
proof -
  let ?u = "(2::rat) powi (max (exponent q) (- 1022) - 52)"
  have "0 \<le> q / ?u"
    using assms by simp
  then have "round_even 0 \<le> round_even (q / ?u)"
    by (rule round_even_mono)
  then have "0 \<le> round_even (q / ?u)"
    using round_even_int[of 0] by simp
  then show ?thesis
    by (simp add: nearest_def Let_def)
qed

text \<open>In a binade at or above the least normal exponent the result stays between the
  two powers of 2.\<close>

lemma nearest_upper:
  assumes "0 < q"
  shows "nearest q \<le> 2 powi (max (exponent q) (- 1022) + 1)"
proof -
  let ?E = "max (exponent q) (- 1022)"
  let ?u = "(2::rat) powi (?E - 52)"
  have "q < 2 powi (exponent q + 1)"
    using exponent_bounds[OF assms] by simp
  also have "\<dots> \<le> 2 powi (?E + 1)"
    by (simp add: pow2_le)
  finally have "q / ?u \<le> 2 powi (?E + 1) / ?u"
    by (simp add: divide_right_mono)
  also have "2 powi (?E + 1) / ?u = (2::rat) powi 53"
    by (simp flip: power_int_diff)
  also have "\<dots> = of_int (2 ^ 53)"
    by (simp add: power_int_def)
  finally have "round_even (q / ?u) \<le> round_even (of_int (2 ^ 53))"
    by (rule round_even_mono)
  then have "round_even (q / ?u) \<le> 2 ^ 53"
    unfolding round_even_int .
  then have "(of_int (round_even (q / ?u)) :: rat) \<le> of_int (2 ^ 53)"
    by (simp only: of_int_le_iff)
  then have "of_int (round_even (q / ?u)) * ?u \<le> of_int (2 ^ 53) * ?u"
    by (intro mult_right_mono) simp_all
  also have "of_int (2 ^ 53) * ?u = 2 powi (?E + 1)"
    unfolding pow2_nat pow2_times by (simp add: add.commute)
  finally show ?thesis
    unfolding nearest_def Let_def .
qed

lemma nearest_lower:
  assumes "0 < q" and "- 1022 \<le> exponent q"
  shows "2 powi (exponent q) \<le> nearest q"
proof -
  let ?E = "max (exponent q) (- 1022)"
  let ?u = "(2::rat) powi (?E - 52)"
  have E: "?E = exponent q"
    using assms(2) by simp
  have "2 powi ?E \<le> q"
    unfolding E using exponent_bounds[OF assms(1)] by simp
  then have "2 powi ?E / ?u \<le> q / ?u"
    by (simp add: divide_right_mono)
  moreover have "2 powi ?E / ?u = (2::rat) powi 52"
    by (simp flip: power_int_diff)
  moreover have "(2::rat) powi 52 = of_int (2 ^ 52)"
    by (simp add: power_int_def)
  ultimately have "round_even (of_int (2 ^ 52)) \<le> round_even (q / ?u)"
    by (intro round_even_mono) simp
  then have "2 ^ 52 \<le> round_even (q / ?u)"
    unfolding round_even_int .
  then have "(of_int (2 ^ 52) :: rat) \<le> of_int (round_even (q / ?u))"
    by (simp only: of_int_le_iff)
  then have s: "of_int (2 ^ 52) * ?u \<le> of_int (round_even (q / ?u)) * ?u"
    by (intro mult_right_mono) simp_all
  have eq: "of_int (2 ^ 52) * ?u = 2 powi ?E"
    unfolding pow2_nat pow2_times by simp
  from s have "2 powi ?E \<le> of_int (round_even (q / ?u)) * ?u"
    unfolding eq .
  then show ?thesis
    unfolding nearest_def Let_def E .
qed

lemma nearest_mono:
  assumes "0 < p" and "p \<le> q"
  shows "nearest p \<le> nearest q"
proof -
  from assms have q: "0 < q" by simp
  let ?Ep = "max (exponent p) (- 1022)"
  let ?Eq = "max (exponent q) (- 1022)"
  have le: "?Ep \<le> ?Eq"
    using exponent_mono[OF assms] by simp
  show ?thesis
  proof (cases "?Ep = ?Eq")
    case True
    let ?u = "(2::rat) powi (?Eq - 52)"
    have "p / ?u \<le> q / ?u"
      using assms(2) by (simp add: divide_right_mono)
    then have "round_even (p / ?u) \<le> round_even (q / ?u)"
      by (rule round_even_mono)
    then have "(of_int (round_even (p / ?u)) :: rat) \<le> of_int (round_even (q / ?u))"
      by (simp only: of_int_le_iff)
    then have "of_int (round_even (p / ?u)) * ?u \<le> of_int (round_even (q / ?u)) * ?u"
      by (intro mult_right_mono) simp_all
    then show ?thesis
      by (simp add: nearest_def Let_def True)
  next
    case False
    from False le have lt: "?Ep < ?Eq"
      by (rule order.not_eq_order_implies_strict)
    have "- 1022 \<le> ?Ep"
      by simp
    from this lt have "- 1022 < ?Eq"
      by (rule le_less_trans)
    then have n: "- 1022 \<le> exponent q" and e: "?Eq = exponent q"
      by (simp_all add: max_def split: if_splits)
    have "nearest p \<le> 2 powi (?Ep + 1)"
      by (rule nearest_upper[OF assms(1)])
    also have "\<dots> \<le> 2 powi (exponent q)"
    proof -
      from lt have "?Ep + 1 \<le> exponent q"
        unfolding e by (rule zless_imp_add1_zle)
      then show ?thesis
        by (simp only: pow2_le)
    qed
    also have "\<dots> \<le> nearest q"
      by (rule nearest_lower[OF q n])
    finally show ?thesis .
  qed
qed

lemma double_not_NaN: "double q \<noteq> NaN"
  by (simp add: double_def)

lemma double_zero: "double 0 = Fin 0"
  by (simp add: double_def)

lemma double_pos: "0 < q \<Longrightarrow> num_le (Fin 0) (double q)"
  using nearest_nonneg[of q] by (simp add: double_def)

lemma double_neg: "q < 0 \<Longrightarrow> num_le (double q) (Fin 0)"
  using nearest_nonneg[of "- q"] by (simp add: double_def)

lemma num_le_trans: "num_le a b \<Longrightarrow> num_le b c \<Longrightarrow> num_le a c"
  by (cases a; cases b; cases c) simp_all

lemma double_mono:
  assumes "p \<le> q"
  shows "num_le (double p) (double q)"
proof -
  consider "0 < p" | "q < 0" | "p \<le> 0" "0 \<le> q"
    using assms by linarith
  then show ?thesis
  proof cases
    case 1
    then have "nearest p \<le> nearest q"
      using assms by (rule nearest_mono)
    with 1 assms show ?thesis
      by (simp add: double_def)
  next
    case 2
    then have "0 < - q" and "- q \<le> - p"
      using assms by simp_all
    then have "nearest (- q) \<le> nearest (- p)"
      by (rule nearest_mono)
    with 2 assms show ?thesis
      by (simp add: double_def)
  next
    case 3
    have a: "num_le (double p) (Fin 0)"
      using 3(1) double_neg[of p] by (cases "p = 0") (simp_all add: double_zero)
    have b: "num_le (Fin 0) (double q)"
      using 3(2) double_pos[of q] by (cases "q = 0") (simp_all add: double_zero)
    from a b show ?thesis
      by (rule num_le_trans)
  qed
qed

text \<open>Every finite result is a multiple of the least positive double.\<close>

lemma nearest_grid:
  "\<exists>k. nearest q = of_int k * 2 powi (- 1074)"
proof -
  let ?E = "max (exponent q) (- 1022)"
  let ?n = "round_even (q / 2 powi (?E - 52))"
  have "0 \<le> ?E + 1022"
    by simp
  then have "(2::rat) powi (?E + 1022) = of_int (2 ^ nat (?E + 1022))"
    by (simp add: power_int_def)
  moreover have "(2::rat) powi (?E - 52) = 2 powi (?E + 1022) * 2 powi (- 1074)"
    unfolding pow2_times by simp
  ultimately have "nearest q = of_int (?n * 2 ^ nat (?E + 1022)) * 2 powi (- 1074)"
    by (simp add: nearest_def Let_def)
  then show ?thesis ..
qed

lemma double_grid:
  assumes "double a = Fin x"
  shows "\<exists>k. x = of_int k * 2 powi (- 1074)"
proof -
  consider "a = 0" | "0 < a" | "a < 0"
    by linarith
  then show ?thesis
  proof cases
    case 1
    with assms have "x = of_int 0 * 2 powi (- 1074)"
      by (simp add: double_def)
    then show ?thesis ..
  next
    case 2
    with assms have "x = nearest a"
      by (simp add: double_def split: if_splits)
    then show ?thesis
      using nearest_grid[of a] by simp
  next
    case 3
    with assms have x: "x = - nearest (- a)"
      by (simp add: double_def split: if_splits)
    obtain k where "nearest (- a) = of_int k * 2 powi (- 1074)"
      using nearest_grid[of "- a"] ..
    then have "x = of_int (- k) * 2 powi (- 1074)"
      unfolding x by simp
    then show ?thesis ..
  qed
qed

lemma exponent_pow2: "exponent (2 powi e) = e"
  by (rule exponent_unique) (simp_all add: pow2_less)

lemma nearest_least: "nearest (2 powi (- 1074)) = 2 powi (- 1074)"
proof -
  have "round_even (2 powi (- 1074) / 2 powi (- 1074)) = 1"
    using round_even_int[of 1] by simp
  then show ?thesis
    unfolding nearest_def Let_def exponent_pow2 by simp
qed

lemma nearest_positive:
  assumes "2 powi (- 1074) \<le> q"
  shows "0 < nearest q"
proof -
  have "(0::rat) < 2 powi (- 1074)"
    by simp
  also have "\<dots> = nearest (2 powi (- 1074))"
    by (simp only: nearest_least)
  also have "\<dots> \<le> nearest q"
    using assms by (intro nearest_mono) simp_all
  finally show ?thesis .
qed

lemma double_nonzero:
  assumes "2 powi (- 1074) \<le> \<bar>d\<bar>"
  shows "double d \<noteq> Fin 0"
proof (cases "0 < d")
  case True
  with assms have "0 < nearest d"
    by (intro nearest_positive) simp
  with True show ?thesis
    by (simp add: double_def)
next
  case False
  have "(0::rat) < 2 powi (- 1074)"
    by simp
  with assms have "d \<noteq> 0"
    by auto
  with False have n: "d < 0"
    by simp
  with assms have "0 < nearest (- d)"
    by (intro nearest_positive) simp
  with n show ?thesis
    by (simp add: double_def)
qed

lemma double_difference:
  assumes "double a = Fin x" and "double b = Fin y" and "double (y - x) = Fin 0"
  shows "x = y"
proof (rule ccontr)
  assume ne: "x \<noteq> y"
  obtain k where k: "x = of_int k * 2 powi (- 1074)"
    using double_grid[OF assms(1)] ..
  obtain l where l: "y = of_int l * 2 powi (- 1074)"
    using double_grid[OF assms(2)] ..
  have d: "y - x = of_int (l - k) * 2 powi (- 1074)"
    unfolding k l by (simp add: algebra_simps)
  from ne have "l \<noteq> k"
    unfolding k l by auto
  then have "1 \<le> \<bar>l - k\<bar>"
    by simp
  then have "(1::rat) \<le> \<bar>of_int (l - k)\<bar>"
    by (metis of_int_1 of_int_abs of_int_le_iff)
  then have "1 * 2 powi (- 1074) \<le> \<bar>of_int (l - k)\<bar> * (2::rat) powi (- 1074)"
    by (intro mult_right_mono) simp_all
  then have "2 powi (- 1074) \<le> \<bar>y - x\<bar>"
    unfolding d by (simp add: abs_mult)
  then have "double (y - x) \<noteq> Fin 0"
    by (rule double_nonzero)
  with assms(3) show False
    by simp
qed

text \<open>A number with at most 53 bits, scaled by a power of 2 within the range of the
  exponents, is a double: rounding does not change it.\<close>

lemma nearest_representable:
  assumes "0 < n" and "n < 2 ^ 53" and "- 1074 \<le> e"
  shows "nearest (of_int n * 2 powi e) = of_int n * 2 powi e"
proof -
  let ?q = "of_int n * (2::rat) powi e"
  let ?E = "max (exponent ?q) (- 1022)"
  have q: "0 < ?q"
    using assms(1) by simp
  have "(of_int n :: rat) < of_int (2 ^ 53)"
    using assms(2) by (simp only: of_int_less_iff)
  then have "?q < of_int (2 ^ 53) * 2 powi e"
    by (intro mult_strict_right_mono) simp_all
  also have "\<dots> = 2 powi (53 + e)"
    unfolding pow2_nat pow2_times by simp
  finally have "(2::rat) powi (exponent ?q) < 2 powi (53 + e)"
    using exponent_bounds[OF q] by simp
  then have "exponent ?q < 53 + e"
    by (simp only: pow2_less)
  with assms(3) have E: "0 \<le> e + 52 - ?E"
    by simp
  have a: "(2::rat) powi e / 2 powi (?E - 52) = 2 powi (e - (?E - 52))"
    by (rule power_int_diff [symmetric]) simp
  have b: "e - (?E - 52) = e + 52 - ?E"
    by simp
  have c: "(2::rat) powi (e + 52 - ?E) = of_int (2 ^ nat (e + 52 - ?E))"
    using E by (simp add: power_int_def)
  have "?q / 2 powi (?E - 52) = of_int n * (2 powi e / 2 powi (?E - 52))"
    by simp
  also have "\<dots> = of_int n * of_int (2 ^ nat (e + 52 - ?E))"
    unfolding a b c ..
  finally have s: "?q / 2 powi (?E - 52) = of_int (n * 2 ^ nat (e + 52 - ?E))"
    by simp
  have "round_even (?q / 2 powi (?E - 52)) = n * 2 ^ nat (e + 52 - ?E)"
    unfolding s by (rule round_even_int)
  then have "nearest ?q = of_int (n * 2 ^ nat (e + 52 - ?E)) * 2 powi (?E - 52)"
    by (simp add: nearest_def Let_def)
  also have "\<dots> = ?q / 2 powi (?E - 52) * 2 powi (?E - 52)"
    unfolding s ..
  also have "\<dots> = ?q"
    by simp
  finally show ?thesis .
qed

lemma double_representable:
  assumes "\<bar>n\<bar> < 2 ^ 53" and "- 1074 \<le> e" and "e \<le> 971"
  shows "double (of_int n * 2 powi e) = Fin (of_int n * 2 powi e)"
proof -
  have bound: "of_int m * (2::rat) powi e < 2 powi 1024" if "0 < m" and "m < 2 ^ 53" for m :: int
  proof -
    have "(of_int m :: rat) < of_int (2 ^ 53)"
      using that(2) by (simp only: of_int_less_iff)
    then have "of_int m * (2::rat) powi e < of_int (2 ^ 53) * 2 powi e"
      by (intro mult_strict_right_mono) simp_all
    also have "\<dots> = 2 powi (53 + e)"
      unfolding pow2_nat pow2_times by simp
    also have "\<dots> \<le> 2 powi 1024"
      using assms(3) by (simp only: pow2_le)
    finally show ?thesis .
  qed
  consider "n = 0" | "0 < n" | "n < 0"
    by linarith
  then show ?thesis
  proof cases
    case 1
    then show ?thesis by (simp add: double_def)
  next
    case 2
    with assms(1) have n: "n < 2 ^ 53"
      by simp
    have "nearest (of_int n * 2 powi e) = of_int n * 2 powi e"
      using 2 n assms(2) by (rule nearest_representable)
    moreover have "0 < of_int n * (2::rat) powi e"
      using 2 by simp
    ultimately show ?thesis
      using bound[OF 2 n] by (simp add: double_def)
  next
    case 3
    then have p: "0 < - n"
      by simp
    from 3 assms(1) have n: "- n < 2 ^ 53"
      by simp
    have "nearest (of_int (- n) * 2 powi e) = of_int (- n) * 2 powi e"
      using p n assms(2) by (rule nearest_representable)
    then have r: "nearest (- (of_int n * 2 powi e)) = - (of_int n * 2 powi e)"
      by simp
    have neg: "of_int n * (2::rat) powi e < 0"
      using 3 by (simp add: mult_neg_pos)
    have "- (of_int n * (2::rat) powi e) < 2 powi 1024"
      using bound[OF p n] by simp
    with neg r show ?thesis
      by (simp add: double_def)
  qed
qed

lemma double_int: "\<bar>n\<bar> < 2 ^ 53 \<Longrightarrow> double (of_int n) = Fin (of_int n)"
  using double_representable[of n 0] by simp




text \<open>Doubles of the examples.\<close>

lemma double_examples:
  "double 50 = Fin 50" "double (1 / 2) = Fin (1 / 2)"
  "double 1225 = Fin 1225" "double (49 / 4) = Fin (49 / 4)"
  "double 4000 = Fin 4000" "double 40 = Fin 40"
  "double 300 = Fin 300" "double 3 = Fin 3"
  "double 150 = Fin 150" "double (3 / 2) = Fin (3 / 2)"
  using double_int[of 50] double_int[of 1225] double_int[of 4000] double_int[of 40]
    double_int[of 300] double_int[of 3] double_int[of 150]
    double_representable[of 1 "- 1"] double_representable[of 49 "- 2"]
    double_representable[of 3 "- 1"]
  by (simp_all add: power_int_def power2_eq_square)




section \<open>Ranking of the processes\<close>

lemma safeNum_finite: "is_finite (safeNum S v)"
  by (simp add: safeNum_def Let_def)

lemma is_finite_Fin: "is_finite n \<Longrightarrow> n = Fin (num_value n)"
  by (cases n) (simp_all add: num_value_def)




lemma cents_rounded:
  "div_d (math_round (mul_d (Fin x) (Fin 100))) (Fin 100) = round_cents x"
  by (cases "double (x * 100)") (simp_all add: round_cents_def)

lemma mapped_cpu: "t_cpu (mapped S p) = round_cents (num_value (safeNum S (cpuRaw p)))"
proof -
  have "safeNum S (cpuRaw p) = Fin (num_value (safeNum S (cpuRaw p)))"
    by (rule is_finite_Fin) (rule safeNum_finite)
  then have "div_d (math_round (mul_d (safeNum S (cpuRaw p)) (Fin 100))) (Fin 100) =
      round_cents (num_value (safeNum S (cpuRaw p)))"
    using cents_rounded by metis
  then show ?thesis by (simp add: mapped_def Let_def)
qed


lemma round_cents_zero: "round_cents 0 = Fin 0"
  by (simp add: round_cents_def double_zero)

lemma round_cents_not_NaN: "round_cents x \<noteq> NaN"
  using double_not_NaN by (cases "double (x * 100)") (simp_all add: round_cents_def)

text \<open>The result is an infinity or a double.\<close>

lemma round_cents_rounded:
  "round_cents x = PosInf \<or> round_cents x = NegInf \<or> (\<exists>a. double a = round_cents x)"
  using double_not_NaN[of "x * 100"]
  by (cases "double (x * 100)") (auto simp: round_cents_def)


lemma round_cents_examples:
  "round_cents (1 / 2) = Fin (1 / 2)" "round_cents (49 / 4) = Fin (49 / 4)"
  "round_cents 40 = Fin 40" "round_cents 3 = Fin 3" "round_cents (3 / 2) = Fin (3 / 2)"
  by (simp_all add: round_cents_def double_examples)



lemma desc_key_le:
  "a \<noteq> NaN \<Longrightarrow> b \<noteq> NaN \<Longrightarrow> (desc_key a \<le> desc_key b) = num_le b a"
  by (cases a; cases b) (simp_all add: desc_key_def less_eq_prod_def)


lemma desc_key_eq: "(desc_key a = desc_key b) = (a = b)"
  by (cases a; cases b) (simp_all add: desc_key_def)

text \<open>The sign of the difference of two doubles survives the rounding.\<close>

lemma rounded_difference:
  assumes "double a = Fin x" and "double b = Fin y"
  shows "(case double (y - x) of Fin q \<Rightarrow> q \<le> 0 | NaN \<Rightarrow> True | NegInf \<Rightarrow> True
          | PosInf \<Rightarrow> False) = (y \<le> x)"
proof (cases "y \<le> x")
  case True
  then have "num_le (double (y - x)) (double 0)"
    by (intro double_mono) simp
  then have "num_le (double (y - x)) (Fin 0)"
    by (simp add: double_zero)
  then show ?thesis
    using True by (cases "double (y - x)") simp_all
next
  case False
  then have "num_le (double 0) (double (y - x))"
    by (intro double_mono) simp
  then have le: "num_le (Fin 0) (double (y - x))"
    by (simp add: double_zero)
  have ne: "double (y - x) \<noteq> Fin 0"
    using double_difference[OF assms] False by auto
  show ?thesis
    using False le ne by (cases "double (y - x)") auto
qed

lemma not_after_cpu:
  assumes "t_cpu a \<noteq> NaN"
    and "t_cpu a = PosInf \<or> t_cpu a = NegInf \<or> (\<exists>q. double q = t_cpu a)"
    and "t_cpu b \<noteq> NaN"
    and "t_cpu b = PosInf \<or> t_cpu b = NegInf \<or> (\<exists>q. double q = t_cpu b)"
  shows "not_after (by_cpu_desc S) a b = (desc_key (t_cpu a) \<le> desc_key (t_cpu b))"
proof -
  have c: "by_cpu_desc S a b = sub_d (t_cpu b) (t_cpu a)"
    by (simp add: by_cpu_desc_def nullish_def)
  show ?thesis
  proof (cases "t_cpu a")
    case NaN
    with assms show ?thesis by simp
  next
    case PosInf
    with assms(3) show ?thesis
      unfolding not_after_def c
      by (cases "t_cpu b") (simp_all add: desc_key_def less_eq_prod_def)
  next
    case NegInf
    with assms(3) show ?thesis
      unfolding not_after_def c
      by (cases "t_cpu b") (simp_all add: desc_key_def less_eq_prod_def)
  next
    case (Fin x)
    note ax = this
    show ?thesis
    proof (cases "t_cpu b")
      case NaN
      with assms show ?thesis by simp
    next
      case PosInf
      with ax show ?thesis
        unfolding not_after_def c by (simp add: desc_key_def less_eq_prod_def)
    next
      case NegInf
      with ax show ?thesis
        unfolding not_after_def c by (simp add: desc_key_def less_eq_prod_def)
    next
      case (Fin y)
      from assms(2) ax obtain a' where a': "double a' = Fin x"
        by auto
      from assms(4) Fin obtain b' where b': "double b' = Fin y"
        by auto
      show ?thesis
        unfolding not_after_def c ax Fin
        using rounded_difference[OF a' b']
        by (simp add: desc_key_def less_eq_prod_def)
    qed
  qed
qed

lemma sort_insert_insort:
  assumes "\<And>y. y \<in> set ys \<Longrightarrow> not_after c x y = (k x \<le> k y)"
  shows "sort_insert c x ys = insort_key k x ys"
  using assms by (induction ys) simp_all

lemma js_sort_sort_key:
  fixes k :: "'a \<Rightarrow> 'b::linorder"
  assumes "\<And>x y. x \<in> set xs \<Longrightarrow> y \<in> set xs \<Longrightarrow> not_after c x y = (k x \<le> k y)"
  shows "js_sort c xs = sort_key k xs"
  using assms
proof (induction xs)
  case Nil
  then show ?case by (simp add: js_sort_def)
next
  case (Cons x xs)
  have ih: "js_sort c xs = sort_key k xs"
    by (rule Cons.IH) (simp add: Cons.prems)
  have "sort_insert c x (sort_key k xs) = insort_key k x (sort_key k xs)"
    by (rule sort_insert_insort) (simp add: Cons.prems)
  with ih show ?case
    by (simp add: js_sort_def sort_key_def)
qed

lemma mapped_entry:
  assumes "t \<in> set (map (mapped S) l)"
  shows "t_cpu t \<noteq> NaN"
    and "t_cpu t = PosInf \<or> t_cpu t = NegInf \<or> (\<exists>q. double q = t_cpu t)"
proof -
  from assms obtain p where t: "t = mapped S p"
    by auto
  show "t_cpu t \<noteq> NaN"
    unfolding t mapped_cpu by (rule round_cents_not_NaN)
  show "t_cpu t = PosInf \<or> t_cpu t = NegInf \<or> (\<exists>q. double q = t_cpu t)"
    unfolding t mapped_cpu by (rule round_cents_rounded)
qed

lemma ranked_sort_key:
  "ranked S procInfo =
    sort_key (\<lambda>t. desc_key (t_cpu t)) (map (mapped S) (list_or_empty procInfo))"
  unfolding ranked_def
proof (rule js_sort_sort_key)
  fix x y
  assume "x \<in> set (map (mapped S) (list_or_empty procInfo))"
    and "y \<in> set (map (mapped S) (list_or_empty procInfo))"
  then show "not_after (by_cpu_desc S) x y = (desc_key (t_cpu x) \<le> desc_key (t_cpu y))"
    by (intro not_after_cpu mapped_entry)
qed

lemma ranked_mset:
  "mset (ranked S procInfo) = mset (map (mapped S) (list_or_empty procInfo))"
  by (simp add: ranked_sort_key)

lemma ranked_no_NaN:
  assumes "t \<in> set (ranked S procInfo)"
  shows "t_cpu t \<noteq> NaN"
proof -
  have "set (ranked S procInfo) = set (map (mapped S) (list_or_empty procInfo))"
    using ranked_mset by (rule mset_eq_setD)
  with assms show ?thesis
    using mapped_entry(1) by blast
qed

lemma ranked_descending:
  "sorted_wrt (\<lambda>a b. num_le (t_cpu b) (t_cpu a)) (ranked S procInfo)"
proof -
  have "sorted (map (\<lambda>t. desc_key (t_cpu t)) (ranked S procInfo))"
    unfolding ranked_sort_key by (rule sorted_sort_key)
  then have "sorted_wrt (\<lambda>a b. desc_key (t_cpu a) \<le> desc_key (t_cpu b)) (ranked S procInfo)"
    by (simp add: sorted_map)
  then show ?thesis
  proof (rule sorted_wrt_mono_rel [rotated])
    fix x y
    assume "x \<in> set (ranked S procInfo)" and "y \<in> set (ranked S procInfo)"
      and "desc_key (t_cpu x) \<le> desc_key (t_cpu y)"
    then show "num_le (t_cpu y) (t_cpu x)"
      using ranked_no_NaN by (simp add: desc_key_le)
  qed
qed

lemma ranked_stable:
  "filter (\<lambda>t. t_cpu t = k) (ranked S procInfo) =
   filter (\<lambda>t. t_cpu t = k) (map (mapped S) (list_or_empty procInfo))"
proof -
  have "filter (\<lambda>t. desc_key (t_cpu t) = desc_key k) (ranked S procInfo) =
        filter (\<lambda>t. desc_key (t_cpu t) = desc_key k) (map (mapped S) (list_or_empty procInfo))"
    unfolding ranked_sort_key by (rule sort_key_stable)
  then show ?thesis
    by (simp add: desc_key_eq)
qed

text \<open>
  The robust handler (script.js 561-591). For every process list the sensor resolves
  to, it answers with the first five entries of the ranked list, so with at most five;
  the ranked list is a rearrangement of the normalized entries; the reply is in
  descending order of cpu, any entry having at least the cpu of its successor; no entry
  left out has more cpu than one in the reply; and entries of equal cpu stand in the
  order of the sensor's list.
\<close>

lemma api_processes_ranked:
  "api_processes S (Fulfilled procInfo) = Inr (take 5 (ranked S procInfo))
   \<and> length (take 5 (ranked S procInfo)) \<le> 5
   \<and> mset (ranked S procInfo) = mset (map (mapped S) (list_or_empty procInfo))
   \<and> sorted_wrt (\<lambda>a b. num_le (t_cpu b) (t_cpu a)) (take 5 (ranked S procInfo))
   \<and> (\<forall>i. Suc i < length (take 5 (ranked S procInfo)) \<longrightarrow>
         num_le (t_cpu (take 5 (ranked S procInfo) ! Suc i))
                (t_cpu (take 5 (ranked S procInfo) ! i)))
   \<and> (\<forall>t\<in>set (take 5 (ranked S procInfo)). \<forall>u\<in>set (drop 5 (ranked S procInfo)).
         num_le (t_cpu u) (t_cpu t))
   \<and> (\<forall>k. prefix (filter (\<lambda>t. t_cpu t = k) (take 5 (ranked S procInfo)))
             (filter (\<lambda>t. t_cpu t = k) (map (mapped S) (list_or_empty procInfo))))"
proof -
  let ?r = "ranked S procInfo"
  let ?ge = "\<lambda>a b. num_le (t_cpu b) (t_cpu a)"
  have a: "api_processes S (Fulfilled procInfo) = Inr (take 5 ?r)"
    by (simp add: api_processes_def and_then_def)
  have s: "sorted_wrt ?ge (take 5 ?r)"
    using ranked_descending by (rule sorted_wrt_take)
  have adj: "\<forall>i. Suc i < length (take 5 ?r) \<longrightarrow>
         num_le (t_cpu (take 5 ?r ! Suc i)) (t_cpu (take 5 ?r ! i))"
    using s by (auto simp: sorted_wrt_iff_nth_less)
  have "sorted_wrt ?ge (take 5 ?r @ drop 5 ?r)"
    using ranked_descending[of S procInfo] by simp
  then have top: "\<forall>t\<in>set (take 5 ?r). \<forall>u\<in>set (drop 5 ?r). num_le (t_cpu u) (t_cpu t)"
    unfolding sorted_wrt_append by blast
  have st: "prefix (filter (\<lambda>t. t_cpu t = k) (take 5 ?r))
             (filter (\<lambda>t. t_cpu t = k) (map (mapped S) (list_or_empty procInfo)))" for k
  proof -
    have "prefix (take 5 ?r) ?r" by (rule take_is_prefix)
    then have "prefix (filter (\<lambda>t. t_cpu t = k) (take 5 ?r)) (filter (\<lambda>t. t_cpu t = k) ?r)"
      by (rule filter_mono_prefix)
    then show ?thesis by (simp add: ranked_stable)
  qed
  show ?thesis
    using a s adj top st ranked_mset[of S procInfo] by simp
qed

lemma fixed_cpu_finite:
  assumes "numeric_cpu S p"
  shows "to_number S (f_cpu (mapped_fixed S p)) = Fin (fixed_cpu_value S (mapped_fixed S p))"
proof -
  from assms obtain q where "to_number S (nullish (p_pcpu p) (nullish (p_cpu p) (JNum (Fin 0)))) = Fin q"
    by (auto simp: numeric_cpu_def dest: is_finite_Fin)
  then show ?thesis
    by (simp add: mapped_fixed_def fixed_cpu_value_def num_value_def)
qed

lemma not_after_fixed:
  assumes "to_number S (f_cpu a) = Fin (fixed_cpu_value S a)"
    and "to_number S (f_cpu b) = Fin (fixed_cpu_value S b)"
  shows "not_after (by_fixed_cpu_desc S) a b = (- fixed_cpu_value S a \<le> - fixed_cpu_value S b)"
  using assms by (simp add: not_after_def by_fixed_cpu_desc_def js_sub_def)

lemma ranked_fixed_sort_key:
  assumes "\<forall>p\<in>set (list_or_empty procInfo). numeric_cpu S p"
  shows "ranked_fixed S procInfo =
    sort_key (\<lambda>t. - fixed_cpu_value S t) (map (mapped_fixed S) (list_or_empty procInfo))"
  unfolding ranked_fixed_def
proof (rule js_sort_sort_key)
  fix x y
  assume "x \<in> set (map (mapped_fixed S) (list_or_empty procInfo))"
    and "y \<in> set (map (mapped_fixed S) (list_or_empty procInfo))"
  with assms have "to_number S (f_cpu x) = Fin (fixed_cpu_value S x)"
    and "to_number S (f_cpu y) = Fin (fixed_cpu_value S y)"
    by (auto simp: fixed_cpu_finite)
  then show "not_after (by_fixed_cpu_desc S) x y = (- fixed_cpu_value S x \<le> - fixed_cpu_value S y)"
    by (rule not_after_fixed)
qed

text \<open>
  The variant that keeps the toFixed strings (script.js 386-404) ranks in the same way
  whenever the cpu of every raw entry converts to a finite number: at most five entries,
  descending by the number the cpu string denotes, entries of equal cpu in the order of
  the sensor's list.
\<close>

lemma api_processes_fixed_top5:
  assumes "\<forall>p\<in>set (list_or_empty procInfo). numeric_cpu S p"
  shows "api_processes_fixed S (Fulfilled procInfo) = Inr (take 5 (ranked_fixed S procInfo))
   \<and> length (take 5 (ranked_fixed S procInfo)) \<le> 5
   \<and> sorted_wrt (\<lambda>a b. fixed_cpu_value S b \<le> fixed_cpu_value S a)
         (take 5 (ranked_fixed S procInfo))
   \<and> (\<forall>k. prefix (filter (\<lambda>t. fixed_cpu_value S t = k) (take 5 (ranked_fixed S procInfo)))
             (filter (\<lambda>t. fixed_cpu_value S t = k)
                (map (mapped_fixed S) (list_or_empty procInfo))))"
proof -
  let ?r = "ranked_fixed S procInfo"
  let ?v = "fixed_cpu_value S"
  note r = ranked_fixed_sort_key [OF assms]
  have a: "api_processes_fixed S (Fulfilled procInfo) = Inr (take 5 ?r)"
    by (simp add: api_processes_fixed_def and_then_def)
  have "sorted (map (\<lambda>t. - ?v t) ?r)"
    unfolding r by (rule sorted_sort_key)
  then have "sorted_wrt (\<lambda>a b. ?v b \<le> ?v a) ?r"
    by (simp add: sorted_map)
  then have s: "sorted_wrt (\<lambda>a b. ?v b \<le> ?v a) (take 5 ?r)"
    by (rule sorted_wrt_take)
  have st: "prefix (filter (\<lambda>t. ?v t = k) (take 5 ?r))
      (filter (\<lambda>t. ?v t = k) (map (mapped_fixed S) (list_or_empty procInfo)))" for k
  proof -
    have "filter (\<lambda>t. - ?v t = - k) ?r =
        filter (\<lambda>t. - ?v t = - k) (map (mapped_fixed S) (list_or_empty procInfo))"
      unfolding r by (rule sort_key_stable)
    then have e: "filter (\<lambda>t. ?v t = k) ?r =
        filter (\<lambda>t. ?v t = k) (map (mapped_fixed S) (list_or_empty procInfo))"
      by simp
    have "prefix (take 5 ?r) ?r"
      by (rule take_is_prefix)
    then have "prefix (filter (\<lambda>t. ?v t = k) (take 5 ?r)) (filter (\<lambda>t. ?v t = k) ?r)"
      by (rule filter_mono_prefix)
    then show ?thesis
      by (simp add: e)
  qed
  show ?thesis
    using a s st by simp
qed

text \<open>
  C4 fails on the variant that keeps the toFixed strings (script.js 386-404). Of three
  processes whose cpu fields are the numbers 1, \<open>NaN\<close> and 2, in this order, the cpu
  strings of the reply denote 1, \<open>NaN\<close> and 2, in this order: the entry with cpu 2
  stands behind the entry with cpu 1. The comparison of anything with the string NaN
  yields \<open>NaN\<close>, which the sort reads as equal, so the entry in the middle keeps the two
  others apart. A cpu field that is a text without a number gives the same reply.
\<close>

theorem api_processes_fixed_unordered:
  "map_sum id (map f_cpu)
     (api_processes_fixed plain_reading (Fulfilled (Some
        [proc 1 ''init'' (JNum (Fin 1)), proc 2 ''bash'' (JNum NaN),
         proc 3 ''node'' (JNum (Fin 2))]))) =
   Inr [JFixed (Fin 1), JFixed NaN, JFixed (Fin 2)]
   \<and> map_sum id (map f_pid)
     (api_processes_fixed plain_reading (Fulfilled (Some
        [proc 1 ''init'' (JNum (Fin 1)), proc 2 ''bash'' (JNum NaN),
         proc 3 ''node'' (JNum (Fin 2))]))) =
   Inr [JNum (Fin 1), JNum (Fin 2), JNum (Fin 3)]
   \<and> map_sum id (map f_cpu)
     (api_processes_fixed plain_reading (Fulfilled (Some
        [proc 1 ''init'' (JNum (Fin 1)), proc 2 ''bash'' (JStr ''x''),
         proc 3 ''node'' (JNum (Fin 2))]))) =
   Inr [JFixed (Fin 1), JFixed NaN, JFixed (Fin 2)]
   \<and> to_number plain_reading (JFixed (Fin 1)) = Fin 1
   \<and> to_number plain_reading (JFixed NaN) = NaN
   \<and> to_number plain_reading (JFixed (Fin 2)) = Fin 2"
  by (simp add: api_processes_fixed_def and_then_def ranked_fixed_def list_or_empty_def
      js_sort_def mapped_fixed_def proc_def nullish_def not_after_def by_fixed_cpu_desc_def
      js_sub_def plain_reading_def is_digit_def round2_def)

lemma mapped_proc_num:
  "round_cents q = Fin q' \<Longrightarrow> mapped plain_reading (proc n s (JNum (Fin q))) = entry n s q'"
  by (simp add: mapped_def proc_def entry_def cpuRaw_def memRaw_def nullish_def safeNum_def
      Let_def cents_rounded round_cents_zero del: mul_d.simps div_d.simps)

lemma mapped_proc_word:
  "\<not> list_all is_digit s' \<Longrightarrow> mapped plain_reading (proc n s (JStr s')) = entry n s 0"
  by (simp add: mapped_def proc_def entry_def cpuRaw_def memRaw_def nullish_def safeNum_def
      Let_def plain_reading_def cents_rounded round_cents_zero del: mul_d.simps div_d.simps)

lemma mapped_proc_undef:
  "mapped plain_reading (proc n s Undefined) = entry n s 0"
  by (simp add: mapped_def proc_def entry_def cpuRaw_def memRaw_def nullish_def safeNum_def
      Let_def plain_reading_def cents_rounded round_cents_zero del: mul_d.simps div_d.simps)

lemma insert_entry:
  assumes "double q = Fin q" and "double q' = Fin q'"
  shows "sort_insert (by_cpu_desc S) (entry n s q) (entry n' s' q' # ys) =
    (if q' \<le> q then entry n s q # entry n' s' q' # ys
     else entry n' s' q' # sort_insert (by_cpu_desc S) (entry n s q) ys)"
proof -
  have "not_after (by_cpu_desc S) (entry n s q) (entry n' s' q') = (q' \<le> q)"
    using rounded_difference[OF assms]
    by (simp add: not_after_def by_cpu_desc_def nullish_def entry_def)
  then show ?thesis
    by simp
qed

lemma mapped_example: "map (mapped plain_reading)
     [proc 1 ''init'' (JNum (Fin (1 / 2))),
      proc 2 ''node'' (JNum (Fin (49 / 4))),
      proc 3 ''bash'' (JStr ''n/a''),
      proc 4 ''chrome'' (JNum (Fin 40)),
      proc 5 ''code'' (JNum (Fin (1 / 2))),
      proc 6 ''idle'' Undefined,
      proc 7 ''sshd'' (JNum (Fin 3))] =
   [entry 1 ''init'' (1/2), entry 2 ''node'' (49 / 4), entry 3 ''bash'' 0, entry 4 ''chrome'' 40,
    entry 5 ''code'' (1 / 2), entry 6 ''idle'' 0, entry 7 ''sshd'' 3]"
  by (simp add: mapped_proc_num mapped_proc_word mapped_proc_undef is_digit_def
      round_cents_examples)

lemma js_sort_example: "js_sort (by_cpu_desc plain_reading)
   [entry 1 ''init'' (1/2), entry 2 ''node'' (49 / 4), entry 3 ''bash'' 0, entry 4 ''chrome'' 40,
    entry 5 ''code'' (1 / 2), entry 6 ''idle'' 0, entry 7 ''sshd'' 3] =
   [entry 4 ''chrome'' 40, entry 2 ''node'' (49 / 4), entry 7 ''sshd'' 3, entry 1 ''init'' (1 / 2),
        entry 5 ''code'' (1 / 2), entry 3 ''bash'' 0, entry 6 ''idle'' 0]"
  by (simp add: js_sort_def insert_entry double_examples double_zero del: sort_insert.simps(2))

lemma ranked_example:
  "ranked plain_reading (Some
     [proc 1 ''init'' (JNum (Fin (1 / 2))),
      proc 2 ''node'' (JNum (Fin (49 / 4))),
      proc 3 ''bash'' (JStr ''n/a''),
      proc 4 ''chrome'' (JNum (Fin 40)),
      proc 5 ''code'' (JNum (Fin (1 / 2))),
      proc 6 ''idle'' Undefined,
      proc 7 ''sshd'' (JNum (Fin 3))]) =
   [entry 4 ''chrome'' 40, entry 2 ''node'' (49 / 4), entry 7 ''sshd'' 3,
    entry 1 ''init'' (1 / 2), entry 5 ''code'' (1 / 2), entry 3 ''bash'' 0,
    entry 6 ''idle'' 0]"
  unfolding ranked_def list_or_empty_def option.case mapped_example js_sort_example ..

text \<open>Seven processes, two of them without a usable cpu field and two tied at 0.5: the
  reply of the robust handler.\<close>

lemma api_processes_example:
  "api_processes plain_reading (Fulfilled (Some
     [proc 1 ''init'' (JNum (Fin (1 / 2))),
      proc 2 ''node'' (JNum (Fin (49 / 4))),
      proc 3 ''bash'' (JStr ''n/a''),
      proc 4 ''chrome'' (JNum (Fin 40)),
      proc 5 ''code'' (JNum (Fin (1 / 2))),
      proc 6 ''idle'' Undefined,
      proc 7 ''sshd'' (JNum (Fin 3))])) =
   Inr [entry 4 ''chrome'' 40, entry 2 ''node'' (49 / 4), entry 7 ''sshd'' 3,
        entry 1 ''init'' (1 / 2), entry 5 ''code'' (1 / 2)]"
proof -
  let ?l = "[proc 1 ''init'' (JNum (Fin (1 / 2))),
      proc 2 ''node'' (JNum (Fin (49 / 4))),
      proc 3 ''bash'' (JStr ''n/a''),
      proc 4 ''chrome'' (JNum (Fin 40)),
      proc 5 ''code'' (JNum (Fin (1 / 2))),
      proc 6 ''idle'' Undefined,
      proc 7 ''sshd'' (JNum (Fin 3))]"
  have "api_processes plain_reading (Fulfilled (Some ?l)) =
      Inr (take 5 (ranked plain_reading (Some ?l)))"
    using api_processes_ranked [of plain_reading "Some ?l"] by (rule conjunct1)
  then show ?thesis
    unfolding ranked_example by simp
qed



section \<open>Quoting in the CSV export\<close>

lemma double_quotes_Cons:
  "double_quotes (c # s) = (if c = CHR 0x22 then [CHR 0x22, CHR 0x22] else [c]) @ double_quotes s"
  by (simp add: double_quotes_def)

lemma undouble_double_quotes: "undouble (double_quotes s) = Some s"
proof (induction s)
  case Nil
  then show ?case by (simp add: double_quotes_def)
next
  case (Cons c s)
  show ?case
  proof (cases "c = CHR 0x22")
    case True
    then show ?thesis using Cons by (simp add: double_quotes_Cons)
  next
    case False
    then show ?thesis using Cons
      by (cases "double_quotes s") (simp_all add: double_quotes_Cons)
  qed
qed

lemma csv_unquote_quoted: "csv_unquote ([CHR 0x22] @ double_quotes s @ [CHR 0x22]) = Some s"
  by (simp add: csv_unquote_def undouble_double_quotes)

lemma quotes_doubled:
  "length (filter (\<lambda>c. c = CHR 0x22) (double_quotes s)) = 2 * length (filter (\<lambda>c. c = CHR 0x22) s)
   \<and> filter (\<lambda>c. c \<noteq> CHR 0x22) (double_quotes s) = filter (\<lambda>c. c \<noteq> CHR 0x22) s"
  by (induction s) (simp_all add: double_quotes_Cons, simp add: double_quotes_def)

lemma escaped_text_name:
  "text_name v \<Longrightarrow> escaped_name T v = Inr (double_quotes (name_text v))"
  by (cases v rule: truthy.cases)
    (auto simp: text_name_def name_text_def escaped_name_def or_else_def double_quotes_def)

lemma csv_row_text:
  assumes "text_name (p_name p)"
  shows "csv_row T p =
      Inr (T (p_pid p) @ '','' @ [CHR 0x22] @ double_quotes (name_text (p_name p)) @ [CHR 0x22]
           @ '','' @ T (nullish (p_pcpu p) (nullish (p_cpu p) (JNum (Fin 0)))) @ '',''
           @ T (nullish (p_pmem p) (nullish (p_mem p) (JNum (Fin 0)))) @ [CHR 0x0A])"
  using escaped_text_name[OF assms, of T] by (simp add: csv_row_def and_then_def Let_def)

lemma csv_rows_text:
  assumes "\<forall>p\<in>set ps. text_name (p_name p)"
  shows "csv_rows T csv ps =
      Inr (csv @ concat (map (\<lambda>p.
           T (p_pid p) @ '','' @ [CHR 0x22] @ double_quotes (name_text (p_name p)) @ [CHR 0x22]
           @ '','' @ T (nullish (p_pcpu p) (nullish (p_cpu p) (JNum (Fin 0)))) @ '',''
           @ T (nullish (p_pmem p) (nullish (p_mem p) (JNum (Fin 0)))) @ [CHR 0x0A]) ps))"
  using assms
proof (induction ps arbitrary: csv)
  case Nil
  then show ?case by simp
next
  case (Cons p ps)
  have r: "text_name (p_name p)"
    using Cons.prems by simp
  have "\<forall>p\<in>set ps. text_name (p_name p)"
    using Cons.prems by simp
  note ih = Cons.IH [OF this]
  show ?case
    by (simp add: csv_row_text[OF r] and_then_def ih)
qed

lemma set_sort_insert: "set (sort_insert c x ys) = insert x (set ys)"
  by (induction ys) auto

lemma set_js_sort: "set (js_sort c xs) = set xs"
  by (induction xs) (simp_all add: js_sort_def set_sort_insert)

lemma topProcs_names:
  assumes "\<forall>p\<in>set xs. text_name (p_name p)"
  shows "\<forall>p\<in>set (take n (js_sort c xs)). text_name (p_name p)"
  using assms set_js_sort[of c xs] by (auto dest: in_set_takeD)

text \<open>The CSV branch of GET /api/snapshot: the text it sends when the format is not pdf,
  the queries resolve and every name of the process list can be written.\<close>

lemma api_snapshot_csv:
  assumes "snapshot_fmt q \<noteq> ''pdf''"
    and "\<forall>p\<in>set (list_or_empty procs). text_name (p_name p)"
  shows "api_snapshot S T time q (Fulfilled (Some st)) (Fulfilled mem) (Fulfilled bat)
           (Fulfilled procs) =
     Inr (CsvText
       ((''time,cpu%,ram%,battery%'' @ [CHR 0x0A]
         @ time @ '','' @ T (JNum (to_number S (nullish (opt_toFixed2 (currentLoad st))
                                        (nullish (currentLoad st) (JNum (Fin 0))))))
         @ '','' @ T (JNum (to_number S (JFixed (num_mul
                            (js_div S (nullish (opt_field m_active mem) (JNum (Fin 0)))
                                      (nullish (opt_field m_total mem) (JNum (Fin 1))))
                            (Fin 100)))))
         @ '','' @ T (snapshot_batteryVal bat) @ [CHR 0x0A, CHR 0x0A]
         @ ''pid,name,cpu,mem'' @ [CHR 0x0A])
        @ concat (map (\<lambda>p.
           T (p_pid p) @ '','' @ [CHR 0x22] @ double_quotes (name_text (p_name p)) @ [CHR 0x22]
           @ '','' @ T (nullish (p_pcpu p) (nullish (p_cpu p) (JNum (Fin 0)))) @ '',''
           @ T (nullish (p_pmem p) (nullish (p_mem p) (JNum (Fin 0)))) @ [CHR 0x0A])
           (take 10 (js_sort (by_pcpu_desc S) (list_or_empty procs))))))"
proof -
  note rows = csv_rows_text [OF topProcs_names [OF assms(2), of 10 "by_pcpu_desc S"]]
  show ?thesis
    using assms(1) by (simp add: api_snapshot_def and_then_def Let_def rows)
qed

text \<open>
  C9. When the format is not pdf, the queries resolve and every process name is a
  string (or missing, which is written as the empty string), GET /api/snapshot answers
  with the CSV text of two header lines, the line of the column names and one row for
  each of the ten top processes: pid, the name between two quotes with every quote of
  the name doubled, cpu and mem, separated by commas. Reading such a field back as a
  quoted CSV field gives the name; the doubling adds one quote per quote and changes no
  other character.
\<close>

theorem csv_name_quoting:
  assumes "snapshot_fmt q \<noteq> ''pdf''"
    and "\<forall>p\<in>set (list_or_empty procs). text_name (p_name p)"
  shows "api_snapshot S T time q (Fulfilled (Some st)) (Fulfilled mem) (Fulfilled bat)
           (Fulfilled procs) =
     Inr (CsvText
       ((''time,cpu%,ram%,battery%'' @ [CHR 0x0A]
         @ time @ '','' @ T (JNum (to_number S (nullish (opt_toFixed2 (currentLoad st))
                                        (nullish (currentLoad st) (JNum (Fin 0))))))
         @ '','' @ T (JNum (to_number S (JFixed (num_mul
                            (js_div S (nullish (opt_field m_active mem) (JNum (Fin 0)))
                                      (nullish (opt_field m_total mem) (JNum (Fin 1))))
                            (Fin 100)))))
         @ '','' @ T (snapshot_batteryVal bat) @ [CHR 0x0A, CHR 0x0A]
         @ ''pid,name,cpu,mem'' @ [CHR 0x0A])
        @ concat (map (\<lambda>p.
           T (p_pid p) @ '','' @ [CHR 0x22] @ double_quotes (name_text (p_name p)) @ [CHR 0x22]
           @ '','' @ T (nullish (p_pcpu p) (nullish (p_cpu p) (JNum (Fin 0)))) @ '',''
           @ T (nullish (p_pmem p) (nullish (p_mem p) (JNum (Fin 0)))) @ [CHR 0x0A])
           (take 10 (js_sort (by_pcpu_desc S) (list_or_empty procs))))))
    \<and> (\<forall>p s. p_name p = JStr s \<longrightarrow> csv_row T p =
          Inr (T (p_pid p) @ '','' @ ([CHR 0x22] @ double_quotes s @ [CHR 0x22]) @ '',''
               @ T (nullish (p_pcpu p) (nullish (p_cpu p) (JNum (Fin 0)))) @ '',''
               @ T (nullish (p_pmem p) (nullish (p_mem p) (JNum (Fin 0)))) @ [CHR 0x0A]))
    \<and> (\<forall>s. csv_unquote ([CHR 0x22] @ double_quotes s @ [CHR 0x22]) = Some s
          \<and> length (filter (\<lambda>c. c = CHR 0x22) (double_quotes s))
              = 2 * length (filter (\<lambda>c. c = CHR 0x22) s)
          \<and> filter (\<lambda>c. c \<noteq> CHR 0x22) (double_quotes s) = filter (\<lambda>c. c \<noteq> CHR 0x22) s)"
proof -
  note a = api_snapshot_csv [OF assms, of S T time st mem bat]
  have b: "\<forall>p s. p_name p = JStr s \<longrightarrow> csv_row T p =
          Inr (T (p_pid p) @ '','' @ ([CHR 0x22] @ double_quotes s @ [CHR 0x22]) @ '',''
               @ T (nullish (p_pcpu p) (nullish (p_cpu p) (JNum (Fin 0)))) @ '',''
               @ T (nullish (p_pmem p) (nullish (p_mem p) (JNum (Fin 0)))) @ [CHR 0x0A])"
  proof (intro allI impI)
    fix p :: process and s
    assume n: "p_name p = JStr s"
    then have "text_name (p_name p)" and "name_text (p_name p) = s"
      by (simp_all add: text_name_def name_text_def)
    then show "csv_row T p =
          Inr (T (p_pid p) @ '','' @ ([CHR 0x22] @ double_quotes s @ [CHR 0x22]) @ '',''
               @ T (nullish (p_pcpu p) (nullish (p_cpu p) (JNum (Fin 0)))) @ '',''
               @ T (nullish (p_pmem p) (nullish (p_mem p) (JNum (Fin 0)))) @ [CHR 0x0A])"
      using csv_row_text[where p = p and T = T] by simp
  qed
  have c: "\<forall>s. csv_unquote ([CHR 0x22] @ double_quotes s @ [CHR 0x22]) = Some s
          \<and> length (filter (\<lambda>c. c = CHR 0x22) (double_quotes s))
              = 2 * length (filter (\<lambda>c. c = CHR 0x22) s)
          \<and> filter (\<lambda>c. c \<noteq> CHR 0x22) (double_quotes s) = filter (\<lambda>c. c \<noteq> CHR 0x22) s"
    using csv_unquote_quoted quotes_doubled by blast
  from a b c show ?thesis
    by blast
qed

lemma snapshot_fmt_default: "snapshot_fmt None = ''csv''"
  by (simp add: snapshot_fmt_def toLowerCase_def lower_char_def)

lemma sort_single: "js_sort c [x] = [x]"
  by (simp add: js_sort_def)

text \<open>An export without fmt, of a machine at 10 percent load without battery and with
  one process named say "hi": the name is written as "say ""hi""".\<close>

theorem csv_name_quoting_witness:
  "api_snapshot plain_reading plain_text ''2025-01-01T00:00:00.000Z'' None
       (Fulfilled (Some \<lparr>currentLoad = JNum (Fin 10)\<rparr>)) (Fulfilled None) (Fulfilled None)
       (Fulfilled (Some [proc 7 (''say '' @ [CHR 0x22] @ ''hi'' @ [CHR 0x22]) (JNum (Fin 3))])) =
     Inr (CsvText (''time,cpu%,ram%,battery%'' @ [CHR 0x0A]
          @ ''2025-01-01T00:00:00.000Z,10,0,N/A'' @ [CHR 0x0A, CHR 0x0A]
          @ ''pid,name,cpu,mem'' @ [CHR 0x0A]
          @ ''7,'' @ [CHR 0x22] @ ''say '' @ [CHR 0x22, CHR 0x22] @ ''hi'' @ [CHR 0x22, CHR 0x22]
          @ [CHR 0x22] @ '',3,0'' @ [CHR 0x0A]))"
proof -
  let ?p = "proc 7 (''say '' @ [CHR 0x22] @ ''hi'' @ [CHR 0x22]) (JNum (Fin 3))"
  have f: "snapshot_fmt None \<noteq> ''pdf''"
    by (simp add: snapshot_fmt_default)
  have n: "\<forall>p\<in>set (list_or_empty (Some [?p])). text_name (p_name p)"
    by (simp add: list_or_empty_def proc_def text_name_def)
  have r: "concat (map (\<lambda>p.
           plain_text (p_pid p) @ '','' @ [CHR 0x22] @ double_quotes (name_text (p_name p))
           @ [CHR 0x22]
           @ '','' @ plain_text (nullish (p_pcpu p) (nullish (p_cpu p) (JNum (Fin 0)))) @ '',''
           @ plain_text (nullish (p_pmem p) (nullish (p_mem p) (JNum (Fin 0)))) @ [CHR 0x0A])
           (take 10 (js_sort (by_pcpu_desc plain_reading) (list_or_empty (Some [?p]))))) =
        ''7,'' @ [CHR 0x22] @ ''say '' @ [CHR 0x22, CHR 0x22] @ ''hi'' @ [CHR 0x22, CHR 0x22]
          @ [CHR 0x22] @ '',3,0'' @ [CHR 0x0A]"
    by (simp add: list_or_empty_def sort_single proc_def nullish_def double_quotes_def
        name_text_def show_cents_def show_nat.simps char_of_eq_iff)
  have h: "''time,cpu%,ram%,battery%'' @ [CHR 0x0A]
         @ ''2025-01-01T00:00:00.000Z'' @ '',''
         @ plain_text (JNum (to_number plain_reading
             (nullish (opt_toFixed2 (currentLoad \<lparr>currentLoad = JNum (Fin 10)\<rparr>))
                (nullish (currentLoad \<lparr>currentLoad = JNum (Fin 10)\<rparr>) (JNum (Fin 0))))))
         @ '','' @ plain_text (JNum (to_number plain_reading (JFixed (num_mul
                            (js_div plain_reading (nullish (opt_field m_active (None :: memory option)) (JNum (Fin 0)))
                                      (nullish (opt_field m_total (None :: memory option)) (JNum (Fin 1))))
                            (Fin 100)))))
         @ '','' @ plain_text (snapshot_batteryVal None) @ [CHR 0x0A, CHR 0x0A]
         @ ''pid,name,cpu,mem'' @ [CHR 0x0A] =
       ''time,cpu%,ram%,battery%'' @ [CHR 0x0A]
          @ ''2025-01-01T00:00:00.000Z,10,0,N/A'' @ [CHR 0x0A, CHR 0x0A]
          @ ''pid,name,cpu,mem'' @ [CHR 0x0A]"
    by (simp add: nullish_def opt_field_def js_div_def round2_def snapshot_batteryVal_def
        show_cents_def show_nat.simps char_of_eq_iff)
  from csv_name_quoting [OF f n, of plain_reading plain_text "''2025-01-01T00:00:00.000Z''"
      "\<lparr>currentLoad = JNum (Fin 10)\<rparr>" None None]
  have "api_snapshot plain_reading plain_text ''2025-01-01T00:00:00.000Z'' None
       (Fulfilled (Some \<lparr>currentLoad = JNum (Fin 10)\<rparr>)) (Fulfilled None) (Fulfilled None)
       (Fulfilled (Some [?p])) =
     Inr (CsvText
       ((''time,cpu%,ram%,battery%'' @ [CHR 0x0A]
         @ ''2025-01-01T00:00:00.000Z'' @ '',''
         @ plain_text (JNum (to_number plain_reading
             (nullish (opt_toFixed2 (currentLoad \<lparr>currentLoad = JNum (Fin 10)\<rparr>))
                (nullish (currentLoad \<lparr>currentLoad = JNum (Fin 10)\<rparr>) (JNum (Fin 0))))))
         @ '','' @ plain_text (JNum (to_number plain_reading (JFixed (num_mul
                            (js_div plain_reading (nullish (opt_field m_active (None :: memory option)) (JNum (Fin 0)))
                                      (nullish (opt_field m_total (None :: memory option)) (JNum (Fin 1))))
                            (Fin 100)))))
         @ '','' @ plain_text (snapshot_batteryVal None) @ [CHR 0x0A, CHR 0x0A]
         @ ''pid,name,cpu,mem'' @ [CHR 0x0A])
        @ concat (map (\<lambda>p.
           plain_text (p_pid p) @ '','' @ [CHR 0x22] @ double_quotes (name_text (p_name p))
           @ [CHR 0x22]
           @ '','' @ plain_text (nullish (p_pcpu p) (nullish (p_cpu p) (JNum (Fin 0)))) @ '',''
           @ plain_text (nullish (p_pmem p) (nullish (p_mem p) (JNum (Fin 0)))) @ [CHR 0x0A])
           (take 10 (js_sort (by_pcpu_desc plain_reading) (list_or_empty (Some [?p])))))))"
    by (rule conjunct1)
  then show ?thesis
    unfolding r h by simp
qed

section \<open>Reading the log\<close>

lemma slice_from_neg:
  assumes "0 < n"
  shows "length (slice_from (- n) xs) \<le> nat n \<and> suffix (slice_from (- n) xs) xs"
  using assms by (auto simp: slice_from_def Let_def suffix_drop)

text \<open>
  C5. For a query parameter that reads as a positive integer n, GET /api/logs answers
  with at most n lines that are a suffix of the lines of the log file, in their order;
  without the parameter it answers with the last 200 in the same way; and without a log
  file it answers with the empty list.
\<close>

theorem api_logs_recent:
  assumes "parseInt10 s = Some n" and "0 < n"
  shows "(\<exists>ls. api_logs (Content text) (Some s) = Inr ls \<and> length ls \<le> nat n
            \<and> suffix ls (split_lines (trim text)))
     \<and> api_logs (Content text) None = Inr (slice_from (- 200) (split_lines (trim text)))
     \<and> length (slice_from (- 200) (split_lines (trim text))) \<le> 200
     \<and> suffix (slice_from (- 200) (split_lines (trim text))) (split_lines (trim text))
     \<and> api_logs Missing q = Inr []"
proof -
  have n: "parse_n (Some s) = n"
    using assms by (simp add: parse_n_def)
  have a: "api_logs (Content text) (Some s) = Inr (slice_from (- n) (split_lines (trim text)))"
    by (simp add: api_logs_def n Let_def)
  have d: "api_logs (Content text) None = Inr (slice_from (- 200) (split_lines (trim text)))"
    by (simp add: api_logs_def parse_n_def Let_def)
  have m: "api_logs Missing q = Inr []"
    by (simp add: api_logs_def)
  show ?thesis
    using a d m slice_from_neg[OF assms(2), of "split_lines (trim text)"]
      slice_from_neg[of 200 "split_lines (trim text)"]
    by simp
qed

lemma parseInt10_two: "parseInt10 ''2'' = Some 2"
  by (simp add: parseInt10_def is_space_def is_digit_def digits_value_def digit_val_def Let_def)

text \<open>A log of three lines read with n = 2.\<close>

theorem api_logs_recent_witness:
  "api_logs (Content (''a'' @ [CHR 0x0A] @ ''b'' @ [CHR 0x0A] @ ''c'' @ [CHR 0x0A])) (Some ''2'') =
     Inr [''b'', ''c'']"
proof -
  let ?text = "''a'' @ [CHR 0x0A] @ ''b'' @ [CHR 0x0A] @ ''c'' @ [CHR 0x0A]"
  have e: "api_logs (Content ?text) (Some ''2'') = Inr [''b'', ''c'']"
    by (simp add: api_logs_def parse_n_def parseInt10_two trim_def is_space_def slice_from_def
        Let_def)
  have "0 < (2::int)"
    by simp
  from api_logs_recent [OF parseInt10_two this, of ?text]
  have "\<exists>ls. api_logs (Content ?text) (Some ''2'') = Inr ls \<and> length ls \<le> nat 2
      \<and> suffix ls (split_lines (trim ?text))"
    by blast
  with e show ?thesis
    by blast
qed

lemma appended_log_text:
  "foldl appendLogAsync (Some t) ls = Some (t @ log_text ls)"
  by (induction ls arbitrary: t) (simp_all add: log_text_def appendLogAsync_def)

lemma appended_from_nothing:
  "ls \<noteq> [] \<Longrightarrow> foldl appendLogAsync None ls = Some (log_text ls)"
  by (cases ls) (simp_all add: appendLogAsync_def appended_log_text log_text_def)

lemma split_lines_line:
  "CHR 0x0A \<notin> set l \<Longrightarrow> split_lines (l @ CHR 0x0A # rest) = l # split_lines rest"
  by (induction l) auto

lemma split_lines_single: "CHR 0x0A \<notin> set l \<Longrightarrow> split_lines l = [l]"
  by (induction l) auto

lemma split_lines_text:
  assumes "\<forall>l\<in>set ls. CHR 0x0A \<notin> set l" and "CHR 0x0A \<notin> set l"
  shows "split_lines (log_text ls @ l) = ls @ [l]"
  using assms
  by (induction ls) (simp_all add: log_text_def split_lines_single split_lines_line)

lemma is_space_LF: "is_space (CHR 0x0A)"
  by (simp add: is_space_def)

lemma trim_log_text:
  assumes "ls \<noteq> []" and "\<forall>l\<in>set ls. log_line_ok l"
  shows "trim (log_text ls) = log_text (butlast ls) @ last ls"
proof -
  from assms obtain l0 rest where ls: "ls = l0 # rest" by (cases ls) auto
  from assms ls obtain c cs where l0: "l0 = c # cs" "\<not> is_space c"
    by (cases l0) (auto simp: log_line_ok_def)
  have front: "dropWhile is_space (log_text ls) = log_text ls"
    unfolding ls l0 using l0(2) by (simp add: log_text_def)
  have ok: "log_line_ok (last ls)" using assms by simp
  then have "last ls \<noteq> []" and "\<not> is_space (hd (rev (last ls)))"
    by (simp_all add: log_line_ok_def hd_rev)
  then obtain d ds where lst: "rev (last ls) = d # ds" "\<not> is_space d"
    by (cases "rev (last ls)") auto
  have split: "log_text ls = log_text (butlast ls) @ last ls @ [CHR 0x0A]"
    using assms(1) by (induction ls) (auto simp: log_text_def)
  have "rev (log_text ls) = CHR 0x0A # rev (last ls) @ rev (log_text (butlast ls))"
    by (subst split) simp
  then have "dropWhile is_space (rev (log_text ls)) = rev (last ls) @ rev (log_text (butlast ls))"
    using lst is_space_LF by simp
  then show ?thesis
    unfolding trim_def front by simp
qed

text \<open>
  What the handler reads is what the logger wrote: after the lines \<open>ls\<close> have been
  appended to a log that did not exist, GET /api/logs answers with the last lines of
  \<open>ls\<close>.
\<close>

lemma logs_after_appends:
  assumes "ls \<noteq> []" and "\<forall>l\<in>set ls. log_line_ok l"
  shows "\<exists>text. foldl appendLogAsync None ls = Some text
           \<and> api_logs (Content text) q = Inr (slice_from (- parse_n q) ls)"
proof -
  have nl: "\<forall>l\<in>set (butlast ls). CHR 0x0A \<notin> set l"
    using assms(2) by (auto simp: log_line_ok_def dest: in_set_butlastD)
  have "CHR 0x0A \<notin> set (last ls)"
    using assms by (simp add: log_line_ok_def)
  with nl have "split_lines (log_text (butlast ls) @ last ls) = butlast ls @ [last ls]"
    by (rule split_lines_text)
  then have "split_lines (trim (log_text ls)) = ls"
    using assms by (simp add: trim_log_text)
  then show ?thesis
    using assms(1) by (simp add: appended_from_nothing api_logs_def Let_def)
qed

section \<open>Format of the export\<close>

lemma lower_char_code: "(of_char (lower_char c) :: nat) =
    (if 65 \<le> (of_char c :: nat) \<and> (of_char c :: nat) \<le> 90 then of_char c + 32 else of_char c)"
  by (simp add: lower_char_def)

lemma lower_char_eq:
  assumes "97 \<le> (of_char x :: nat)" and "(of_char x :: nat) \<le> 122"
  shows "(lower_char c = x) = (c = x \<or> (of_char c :: nat) + 32 = of_char x)"
proof -
  have e: "(c = x) = ((of_char c :: nat) = of_char x)"
    by simp
  have "(lower_char c = x) = ((of_char (lower_char c) :: nat) = of_char x)"
    by simp
  also have "\<dots> = ((of_char c :: nat) = of_char x \<or> (of_char c :: nat) + 32 = of_char x)"
    unfolding lower_char_code using assms by auto
  finally show ?thesis
    unfolding e .
qed

lemma code_eq: "((of_char c :: nat) = of_char d) = (c = d)"
  by simp

lemma lower_p: "(lower_char c = CHR ''p'') = (c = CHR ''p'' \<or> c = CHR ''P'')"
  using lower_char_eq[of "CHR ''p''" c] code_eq[of c "CHR ''P''"] by simp

lemma lower_d: "(lower_char c = CHR ''d'') = (c = CHR ''d'' \<or> c = CHR ''D'')"
  using lower_char_eq[of "CHR ''d''" c] code_eq[of c "CHR ''D''"] by simp

lemma lower_f: "(lower_char c = CHR ''f'') = (c = CHR ''f'' \<or> c = CHR ''F'')"
  using lower_char_eq[of "CHR ''f''" c] code_eq[of c "CHR ''F''"] by simp

lemma toLowerCase_pdf:
  "(toLowerCase s = ''pdf'') =
     (\<exists>a b c. s = [a, b, c] \<and> (a = CHR ''p'' \<or> a = CHR ''P'') \<and> (b = CHR ''d'' \<or> b = CHR ''D'')
        \<and> (c = CHR ''f'' \<or> c = CHR ''F''))"
proof -
  have "(toLowerCase s = ''pdf'') =
      (\<exists>a b c. s = [a, b, c] \<and> lower_char a = CHR ''p'' \<and> lower_char b = CHR ''d''
         \<and> lower_char c = CHR ''f'')"
    by (auto simp: toLowerCase_def map_eq_Cons_conv)
  then show ?thesis
    unfolding lower_p lower_d lower_f .
qed

lemma api_snapshot_kind:
  assumes "api_snapshot S T time q st m b p = Inr e"
  shows "is_pdf e = (snapshot_fmt q = ''pdf'')"
proof -
  from assms obtain st' m' b' p' where
    f: "st = Fulfilled st'" "m = Fulfilled m'" "b = Fulfilled b'" "p = Fulfilled p'"
    by (cases st; cases m; cases b; cases p) (simp_all add: api_snapshot_def and_then_def Let_def)
  from assms f obtain cl where cl: "st' = Some cl"
    by (cases st') (simp_all add: api_snapshot_def and_then_def Let_def)
  from assms show ?thesis
    unfolding f cl
    by (auto simp: api_snapshot_def and_then_def Let_def is_pdf_def split: if_splits sum.splits)
qed

text \<open>
  C10. The format of GET /api/snapshot is the parameter fmt in lower case, csv when the
  parameter is missing or empty. It is pdf exactly for the eight spellings of pdf in
  upper and lower case. An answer is the document export exactly then and the CSV
  export for every other value. With fmt = pdf the handler answers with the document
  whenever its queries resolve; with any other fmt, or none, it answers with the CSV
  export whenever its queries resolve and every process name can be written (a string
  or missing), and it never answers with the document.
\<close>

theorem snapshot_format:
  "(snapshot_fmt q = ''pdf'') =
     (\<exists>a b c. q = Some [a, b, c] \<and> (a = CHR ''p'' \<or> a = CHR ''P'')
        \<and> (b = CHR ''d'' \<or> b = CHR ''D'') \<and> (c = CHR ''f'' \<or> c = CHR ''F''))
   \<and> (api_snapshot S T time q st m b p = Inr e \<longrightarrow> is_pdf e = (snapshot_fmt q = ''pdf''))
   \<and> (\<forall>cl. snapshot_fmt q = ''pdf'' \<longrightarrow>
        (\<exists>d. api_snapshot S T time q (Fulfilled (Some cl)) (Fulfilled m') (Fulfilled b') (Fulfilled p')
           = Inr (PdfDocument d)))
   \<and> (\<forall>cl. snapshot_fmt q \<noteq> ''pdf'' \<and> (\<forall>x\<in>set (list_or_empty p'). text_name (p_name x)) \<longrightarrow>
        (\<exists>csv. api_snapshot S T time q (Fulfilled (Some cl)) (Fulfilled m') (Fulfilled b')
           (Fulfilled p') = Inr (CsvText csv)))
   \<and> (\<forall>d. snapshot_fmt q \<noteq> ''pdf'' \<longrightarrow> api_snapshot S T time q st m b p \<noteq> Inr (PdfDocument d))"
proof -
  have a: "(snapshot_fmt q = ''pdf'') =
     (\<exists>a b c. q = Some [a, b, c] \<and> (a = CHR ''p'' \<or> a = CHR ''P'')
        \<and> (b = CHR ''d'' \<or> b = CHR ''D'') \<and> (c = CHR ''f'' \<or> c = CHR ''F''))"
  proof (cases q)
    case None
    then show ?thesis by (simp add: snapshot_fmt_def toLowerCase_pdf)
  next
    case (Some s)
    then show ?thesis
      by (cases "s = []") (simp_all add: snapshot_fmt_def toLowerCase_pdf)
  qed
  have b: "api_snapshot S T time q st m b p = Inr e \<longrightarrow> is_pdf e = (snapshot_fmt q = ''pdf'')"
    using api_snapshot_kind by blast
  have c: "\<forall>cl. snapshot_fmt q = ''pdf'' \<longrightarrow>
        (\<exists>d. api_snapshot S T time q (Fulfilled (Some cl)) (Fulfilled m') (Fulfilled b') (Fulfilled p')
           = Inr (PdfDocument d))"
    by (simp add: api_snapshot_def and_then_def Let_def)
  have d: "\<forall>cl. snapshot_fmt q \<noteq> ''pdf'' \<and> (\<forall>x\<in>set (list_or_empty p'). text_name (p_name x)) \<longrightarrow>
        (\<exists>csv. api_snapshot S T time q (Fulfilled (Some cl)) (Fulfilled m') (Fulfilled b')
           (Fulfilled p') = Inr (CsvText csv))"
    using api_snapshot_csv by blast
  have e: "\<forall>d. snapshot_fmt q \<noteq> ''pdf'' \<longrightarrow> api_snapshot S T time q st m b p \<noteq> Inr (PdfDocument d)"
  proof (intro allI impI notI)
    fix d
    assume "snapshot_fmt q \<noteq> ''pdf''" and "api_snapshot S T time q st m b p = Inr (PdfDocument d)"
    then show False
      using api_snapshot_kind[of S T time q st m b p "PdfDocument d"] by (simp add: is_pdf_def)
  qed
  from a b c d e show ?thesis by blast
qed

lemma snapshot_fmt_xml: "snapshot_fmt (Some ''xml'') = ''xml''"
  by (simp add: snapshot_fmt_def toLowerCase_def lower_char_def)

text \<open>A machine with one process and no battery: the spelling PdF gives the document,
  the format xml the CSV export.\<close>

theorem snapshot_format_witness:
  "snapshot_fmt (Some ''PdF'') = ''pdf''
   \<and> (\<exists>d. api_snapshot plain_reading plain_text ''2025-01-01T00:00:00.000Z'' (Some ''PdF'')
          (Fulfilled (Some \<lparr>currentLoad = JNum (Fin 10)\<rparr>)) (Fulfilled None) (Fulfilled None)
          (Fulfilled (Some [proc 7 ''sshd'' (JNum (Fin 3))])) = Inr (PdfDocument d))
   \<and> (\<exists>csv. api_snapshot plain_reading plain_text ''2025-01-01T00:00:00.000Z'' (Some ''xml'')
          (Fulfilled (Some \<lparr>currentLoad = JNum (Fin 10)\<rparr>)) (Fulfilled None) (Fulfilled None)
          (Fulfilled (Some [proc 7 ''sshd'' (JNum (Fin 3))])) = Inr (CsvText csv))"
proof -
  have f: "snapshot_fmt (Some ''PdF'') = ''pdf''"
    by (simp add: snapshot_fmt_def toLowerCase_def lower_char_def char_of_eq_iff)
  have x: "snapshot_fmt (Some ''xml'') \<noteq> ''pdf''"
    by (simp add: snapshot_fmt_xml)
  have n: "\<forall>x\<in>set (list_or_empty (Some [proc 7 ''sshd'' (JNum (Fin 3))])). text_name (p_name x)"
    by (simp add: list_or_empty_def proc_def text_name_def)
  from f snapshot_format [where q = "Some ''PdF''" and S = plain_reading and T = plain_text
      and time = "''2025-01-01T00:00:00.000Z''" and m' = None and b' = None
      and p' = "Some [proc 7 ''sshd'' (JNum (Fin 3))]"]
  have p: "\<exists>d. api_snapshot plain_reading plain_text ''2025-01-01T00:00:00.000Z'' (Some ''PdF'')
          (Fulfilled (Some \<lparr>currentLoad = JNum (Fin 10)\<rparr>)) (Fulfilled None) (Fulfilled None)
          (Fulfilled (Some [proc 7 ''sshd'' (JNum (Fin 3))])) = Inr (PdfDocument d)"
    by blast
  from x n snapshot_format [where q = "Some ''xml''" and S = plain_reading and T = plain_text
      and time = "''2025-01-01T00:00:00.000Z''" and m' = None and b' = None
      and p' = "Some [proc 7 ''sshd'' (JNum (Fin 3))]"]
  have c: "\<exists>csv. api_snapshot plain_reading plain_text ''2025-01-01T00:00:00.000Z'' (Some ''xml'')
          (Fulfilled (Some \<lparr>currentLoad = JNum (Fin 10)\<rparr>)) (Fulfilled None) (Fulfilled None)
          (Fulfilled (Some [proc 7 ''sshd'' (JNum (Fin 3))])) = Inr (CsvText csv)"
    by blast
  from f p c show ?thesis
    by blast
qed

end
